theory Spec2Isabelle
  imports Main "HOL-Library.Word"
begin

section \<open>Python values and exceptions\<close>

text \<open>
  A shallow embedding of \<^verbatim>\<open>aiozmq/rpc.py\<close>. Byte strings are lists of 8-bit words; a
  Python \<^verbatim>\<open>str\<close> is held as the character list of its UTF-8 encoding (the dispatcher
  only splits names at the ASCII dot and compares segments for equality, and both agree
  on code points and on their UTF-8 bytes). Python integers are unbounded: \<open>int\<close>.
  A float is kept as its 64-bit IEEE pattern and never interpreted.
\<close>

type_synonym byte = "8 word"
type_synonym bytes = "byte list"
type_synonym pyfloat = "64 word"

datatype pyval =
    VNone
  | VBool bool
  | VInt int
  | VFloat pyfloat
  | VStr string
  | VBytes bytes
  | VList "pyval list"
  | VTuple "pyval list"
  | VDict "(pyval \<times> pyval) list"

text \<open>
  An exception class is identified by its \<^verbatim>\<open>__module__\<close> and \<^verbatim>\<open>__name__\<close>; an exception
  instance is its class and its \<^verbatim>\<open>args\<close> tuple. Exceptions raised by the interpreter and
  the standard library (\<^verbatim>\<open>TypeError\<close>, \<^verbatim>\<open>struct.error\<close>, ...) carry no message text here.
\<close>

datatype exc_class = ExcClass (cls_module: string) (cls_name: string)

datatype py_exc = Exc (cls_of: exc_class) (args_of: "pyval list")

definition rpc_module :: string where
  "rpc_module = ''aiozmq.rpc''"

definition Error_cls :: exc_class where
  "Error_cls = ExcClass rpc_module ''Error''"

definition GenericError_cls :: exc_class where
  "GenericError_cls = ExcClass rpc_module ''GenericError''"

definition NotFoundError_cls :: exc_class where
  "NotFoundError_cls = ExcClass rpc_module ''NotFoundError''"

definition builtin_cls :: "string \<Rightarrow> exc_class" where
  "builtin_cls n = ExcClass ''builtins'' n"

definition raised :: "string \<Rightarrow> py_exc" where
  "raised n = Exc (builtin_cls n) []"

definition struct_error :: py_exc where
  "struct_error = Exc (ExcClass ''struct'' ''error'') []"

definition InvalidStateError :: py_exc where
  "InvalidStateError = Exc (ExcClass ''asyncio.futures'' ''InvalidStateError'') []"

section \<open>Fixed binary headers (\<^verbatim>\<open>struct.Struct\<close>)\<close>

text \<open>
  The format strings start with \<^verbatim>\<open>=\<close>: native byte order, standard sizes, no padding.
  So \<^verbatim>\<open>H\<close> is 2 bytes, \<^verbatim>\<open>L\<close> 4, \<^verbatim>\<open>d\<close> 8 and \<^verbatim>\<open>?\<close> 1. The host is taken to be
  little-endian. Packing an integer outside the field's range raises \<^verbatim>\<open>struct.error\<close>,
  and so does unpacking a buffer whose length is not the size of the format.
\<close>

fun enc_le :: "nat \<Rightarrow> nat \<Rightarrow> bytes" where
  "enc_le 0 v = []"
| "enc_le (Suc k) v = of_nat (v mod 256) # enc_le k (v div 256)"

fun dec_le :: "bytes \<Rightarrow> nat" where
  "dec_le [] = 0"
| "dec_le (b # bs) = unat b + 256 * dec_le bs"

definition pack_uint :: "nat \<Rightarrow> int \<Rightarrow> py_exc + bytes" where
  "pack_uint k v =
     (if 0 \<le> v \<and> v < 2 ^ (8 * k) then Inr (enc_le k (nat v)) else Inl struct_error)"

definition pack_d :: "pyfloat \<Rightarrow> bytes" where
  "pack_d t = enc_le 8 (unat t)"

definition pack_bool :: "bool \<Rightarrow> bytes" where
  "pack_bool b = [if b then 1 else 0]"

text \<open>\<^verbatim>\<open>REQ_PREFIX = RESP_PREFIX = struct.Struct('=HH')\<close>\<close>

definition PREFIX_pack :: "int \<Rightarrow> int \<Rightarrow> py_exc + bytes" where
  "PREFIX_pack pid rnd =
     (case pack_uint 2 pid of Inl e \<Rightarrow> Inl e
      | Inr a \<Rightarrow> (case pack_uint 2 rnd of Inl e \<Rightarrow> Inl e | Inr b \<Rightarrow> Inr (a @ b)))"

text \<open>\<^verbatim>\<open>REQ_SUFFIX = struct.Struct('=Ld')\<close>\<close>

definition REQ_SUFFIX_pack :: "int \<Rightarrow> pyfloat \<Rightarrow> py_exc + bytes" where
  "REQ_SUFFIX_pack req_id t =
     (case pack_uint 4 req_id of Inl e \<Rightarrow> Inl e | Inr a \<Rightarrow> Inr (a @ pack_d t))"

text \<open>\<^verbatim>\<open>RESP_SUFFIX = struct.Struct('=Ld?')\<close>\<close>

definition RESP_SUFFIX_pack :: "int \<Rightarrow> pyfloat \<Rightarrow> bool \<Rightarrow> py_exc + bytes" where
  "RESP_SUFFIX_pack req_id t is_error =
     (case pack_uint 4 req_id of Inl e \<Rightarrow> Inl e
      | Inr a \<Rightarrow> Inr (a @ pack_d t @ pack_bool is_error))"

text \<open>\<^verbatim>\<open>REQ = struct.Struct('=HHLd')\<close>: 16 bytes.\<close>

definition REQ_unpack :: "bytes \<Rightarrow> py_exc + (int \<times> int \<times> int \<times> pyfloat)" where
  "REQ_unpack h =
     (if length h \<noteq> 16 then Inl struct_error
      else Inr (int (dec_le (take 2 h)),
                int (dec_le (take 2 (drop 2 h))),
                int (dec_le (take 4 (drop 4 h))),
                of_nat (dec_le (take 8 (drop 8 h)))))"

text \<open>\<^verbatim>\<open>RESP = struct.Struct('=HHLd?')\<close>: 17 bytes; any non-zero last byte reads as true.\<close>

definition RESP_unpack :: "bytes \<Rightarrow> py_exc + (int \<times> int \<times> int \<times> pyfloat \<times> bool)" where
  "RESP_unpack h =
     (if length h \<noteq> 17 then Inl struct_error
      else Inr (int (dec_le (take 2 h)),
                int (dec_le (take 2 (drop 2 h))),
                int (dec_le (take 4 (drop 4 h))),
                of_nat (dec_le (take 8 (drop 8 h))),
                h ! 16 \<noteq> 0))"

section \<open>Futures, the log and the transport\<close>

text \<open>
  \<^verbatim>\<open>asyncio.Future\<close> objects live in a store indexed by their position: the caller of
  \<^verbatim>\<open>call\<close> and the registry hold the same future. \<^verbatim>\<open>set_result\<close> and \<^verbatim>\<open>set_exception\<close>
  raise \<^verbatim>\<open>InvalidStateError\<close> on a future that is no longer pending.
\<close>

datatype fut_state = Pending | Finished pyval | Failed py_exc | Cancelled

type_synonym fut_id = nat
type_synonym fut_store = "fut_state list"

definition new_future :: "fut_store \<Rightarrow> fut_id \<times> fut_store" where
  "new_future fs = (length fs, fs @ [Pending])"

definition settle :: "fut_id \<Rightarrow> fut_state \<Rightarrow> fut_store \<Rightarrow> py_exc + fut_store" where
  "settle f st fs =
     (if f < length fs \<and> fs ! f = Pending then Inr (fs[f := st]) else Inl InvalidStateError)"

definition set_result :: "fut_id \<Rightarrow> pyval \<Rightarrow> fut_store \<Rightarrow> py_exc + fut_store" where
  "set_result f v fs = settle f (Finished v) fs"

definition set_exception :: "fut_id \<Rightarrow> py_exc \<Rightarrow> fut_store \<Rightarrow> py_exc + fut_store" where
  "set_exception f e fs = settle f (Failed e) fs"

text \<open>The two \<^verbatim>\<open>logger.critical\<close> calls of the client, with their arguments.\<close>

datatype log_record =
    CannotUnpack "bytes list"
  | UnknownAnswerId int int int pyfloat bool pyval

text \<open>
  The transport is the list of messages written so far, or \<^verbatim>\<open>None\<close>; writing through
  \<^verbatim>\<open>None\<close> raises \<^verbatim>\<open>AttributeError\<close>.
\<close>

type_synonym transport = "bytes list list"

definition transport_write :: "transport option \<Rightarrow> bytes list \<Rightarrow> py_exc + transport option" where
  "transport_write tr msg =
     (case tr of None \<Rightarrow> Inl (raised ''AttributeError'') | Some w \<Rightarrow> Inr (Some (w @ [msg])))"

section \<open>The host: serializer, standard exception classes, handler functions\<close>

text \<open>What \<^verbatim>\<open>getattr(builtins, name)\<close> can be: a subclass of \<^verbatim>\<open>Exception\<close>, or anything else.\<close>

datatype builtin_obj = ExceptionClass exc_class | OtherObject

text \<open>
  Objects reachable from the handler tree. \<open>Handler\<close> is an object whose class defines
  \<^verbatim>\<open>__getitem__\<close>: this is all that \<^verbatim>\<open>isinstance(obj, AbstractHandler)\<close> asks for, through
  \<^verbatim>\<open>AbstractHandler.__subclasshook__\<close>, so besides the instances of \<^verbatim>\<open>AbstractHandler\<close> and
  \<^verbatim>\<open>AttrHandler\<close> it holds of a \<^verbatim>\<open>dict\<close> and of every \<^verbatim>\<open>str\<close>, \<^verbatim>\<open>list\<close>, \<^verbatim>\<open>tuple\<close> and \<^verbatim>\<open>bytes\<close>
  value. The list gives the values that its lookup returns for string keys; for every
  other string key the lookup raises the exception given last: \<^verbatim>\<open>KeyError\<close> for
  \<^verbatim>\<open>AbstractHandler.__getitem__\<close>, \<^verbatim>\<open>AttrHandler.__getitem__\<close> and \<^verbatim>\<open>dict\<close>, \<^verbatim>\<open>TypeError\<close> for
  \<^verbatim>\<open>str\<close>, \<^verbatim>\<open>list\<close>, \<^verbatim>\<open>tuple\<close> and \<^verbatim>\<open>bytes\<close>. There is no class hierarchy here: an exception
  that \<^verbatim>\<open>except KeyError\<close> catches is written as \<^verbatim>\<open>KeyError\<close>. \<open>Method\<close> is a \<^verbatim>\<open>types.MethodType\<close> with its
  \<^verbatim>\<open>__func__\<close>; \<open>Plain\<close> is any other object. The first boolean of \<open>Function\<close>, \<open>Handler\<close>
  and \<open>Plain\<close> says whether the object has the attribute \<^verbatim>\<open>__rpc__\<close>. The second boolean
  of \<open>Function\<close> says whether it is a coroutine function; the second boolean of \<open>Handler\<close>
  and \<open>Plain\<close> says whether the object accepts the assignment of a new attribute (an
  \<^verbatim>\<open>int\<close>, a \<^verbatim>\<open>str\<close>, a \<^verbatim>\<open>dict\<close> or an \<^verbatim>\<open>object()\<close> does not).
\<close>

datatype pyobj =
    Function string bool bool
  | Method pyobj
  | Handler bool bool "(string \<times> pyobj) list" py_exc
  | Plain bool bool

text \<open>
  Modelled from the spec: \<^verbatim>\<open>_Packer\<close> and \<^verbatim>\<open>_Unpacker\<close> of \<^verbatim>\<open>aiozmq/util.py\<close>, which is
  not among the source files of this development. The spec describes them as an external self-describing
  serializer that the core only drives through \<^verbatim>\<open>pack\<close>, \<^verbatim>\<open>feed\<close> and \<^verbatim>\<open>unpack\<close>.
  \<open>packer_pack\<close> serializes one value or raises; \<^verbatim>\<open>feed\<close> appends bytes to the unpacker's
  buffer; \<open>unpacker_unpack\<close> reads one value from the front of the buffer or raises, and
  returns the bytes it leaves in the buffer either way.

  The other fields stand for the Python runtime: \<open>builtins_dir\<close> is \<^verbatim>\<open>dir(builtins)\<close> with
  the object bound to each name, \<open>new_exception\<close> is the call of a class that this module
  does not define, \<open>utf8_ok\<close> tells whether a byte string decodes as UTF-8, \<open>call_sync\<close> is
  the outcome of calling a plain function with \<^verbatim>\<open>*args, **kwargs\<close>, and \<open>call_coro\<close> tells
  whether calling a coroutine function with them raises instead of making a coroutine.
\<close>

record host =
  packer_pack :: "pyval \<Rightarrow> py_exc + bytes"
  unpacker_unpack :: "bytes \<Rightarrow> (py_exc + pyval) \<times> bytes"
  builtins_dir :: "(string \<times> builtin_obj) list"
  new_exception :: "exc_class \<Rightarrow> pyval list \<Rightarrow> py_exc + py_exc"
  utf8_ok :: "bytes \<Rightarrow> bool"
  call_sync :: "pyobj \<Rightarrow> pyval \<Rightarrow> pyval \<Rightarrow> py_exc + pyval"
  call_coro :: "pyobj \<Rightarrow> pyval \<Rightarrow> pyval \<Rightarrow> py_exc option"

definition encode_utf8 :: "string \<Rightarrow> bytes" where
  "encode_utf8 s = map of_char s"

definition decode_utf8 :: "host \<Rightarrow> bytes \<Rightarrow> py_exc + string" where
  "decode_utf8 h b =
     (if utf8_ok h b then Inr (map (\<lambda>x. char_of (unat x)) b) else Inl (raised ''UnicodeDecodeError''))"

text \<open>Iterating a value (\<^verbatim>\<open>*answer\<close>, \<^verbatim>\<open>*exc_args\<close>, \<^verbatim>\<open>tuple(exc_args)\<close>).\<close>

definition is_cont :: "char \<Rightarrow> bool" where
  "is_cont c = (128 \<le> (of_char c :: nat) \<and> (of_char c :: nat) < 192)"

function utf8_chars :: "string \<Rightarrow> string list" where
  "utf8_chars [] = []"
| "utf8_chars (c # cs) = (c # takeWhile is_cont cs) # utf8_chars (dropWhile is_cont cs)"
  by pat_completeness auto
termination
  by (relation "measure length") (auto simp: length_dropWhile_le less_Suc_eq_le)

fun py_iter :: "pyval \<Rightarrow> py_exc + pyval list" where
  "py_iter (VList xs) = Inr xs"
| "py_iter (VTuple xs) = Inr xs"
| "py_iter (VDict kvs) = Inr (map fst kvs)"
| "py_iter (VStr s) = Inr (map VStr (utf8_chars s))"
| "py_iter (VBytes bs) = Inr (map (\<lambda>b. VInt (uint b)) bs)"
| "py_iter v = Inl (raised ''TypeError'')"

text \<open>Lists and dicts are unhashable, and so is a tuple that holds one.\<close>

fun hashable :: "pyval \<Rightarrow> bool" where
  "hashable (VList xs) = False"
| "hashable (VDict kvs) = False"
| "hashable (VTuple xs) = list_all hashable xs"
| "hashable v = True"

section \<open>The protocol state\<close>

text \<open>
  \<^verbatim>\<open>_BaseProtocol\<close>, together with what the instance reaches: the futures of its loop and
  the log. \<open>prefix\<close> is set by both subclasses; \<open>unpacker\<close> holds the bytes fed to the
  unpacker and not yet consumed.
\<close>

record protocol =
  transport :: "transport option"
  done_waiters :: "fut_id list"
  unpacker :: bytes
  prefix :: bytes
  futures :: fut_store
  logged :: "log_record list"

text \<open>\<^verbatim>\<open>connection_lost\<close>: the loop over the waiters stops at the first \<^verbatim>\<open>set_result\<close> that raises.\<close>

fun resolve_waiters :: "fut_id list \<Rightarrow> fut_store \<Rightarrow> (py_exc + unit) \<times> fut_store" where
  "resolve_waiters [] fs = (Inr (), fs)"
| "resolve_waiters (waiter # ws) fs =
     (case set_result waiter VNone fs of
        Inl e \<Rightarrow> (Inl e, fs)
      | Inr fs' \<Rightarrow> resolve_waiters ws fs')"

definition connection_made :: "transport \<Rightarrow> 'a protocol_scheme \<Rightarrow> 'a protocol_scheme" where
  "connection_made tr p = p\<lparr>transport := Some tr\<rparr>"

definition connection_lost ::
  "py_exc option \<Rightarrow> 'a protocol_scheme \<Rightarrow> (py_exc + unit) \<times> 'a protocol_scheme" where
  "connection_lost exc p =
     (let p1 = p\<lparr>transport := None\<rparr>;
          (r, fs) = resolve_waiters (done_waiters p1) (futures p1)
      in (r, p1\<lparr>futures := fs\<rparr>))"

section \<open>The client protocol\<close>

record client = protocol +
  calls :: "int \<rightharpoonup> fut_id"
  counter :: int
  error_table :: "string \<rightharpoonup> exc_class"

definition fill_error_table :: "host \<Rightarrow> string \<rightharpoonup> exc_class" where
  "fill_error_table h =
     (let t0 = fold (\<lambda>(name, val) t.
                      case val of ExceptionClass c \<Rightarrow> t((''builtins.'' @ name) \<mapsto> c)
                                | OtherObject \<Rightarrow> t)
                    (builtins_dir h) Map.empty;
          t1 = t0((rpc_module @ ''.GenericError'') \<mapsto> GenericError_cls)
      in t1((rpc_module @ ''.NotFoundError'') \<mapsto> NotFoundError_cls))"

text \<open>
  Calling an exception class. \<^verbatim>\<open>GenericError.__init__(self, exc_type, args)\<close> takes exactly
  two arguments and passes both on; \<^verbatim>\<open>Error\<close> and \<^verbatim>\<open>NotFoundError\<close> inherit the
  constructor of \<^verbatim>\<open>Exception\<close>, which keeps its arguments.
\<close>

definition new_GenericError :: "pyval \<Rightarrow> pyval \<Rightarrow> py_exc" where
  "new_GenericError exc_type args = Exc GenericError_cls [exc_type, args]"

definition new_NotFoundError :: "string \<Rightarrow> py_exc" where
  "new_NotFoundError name = Exc NotFoundError_cls [VStr name]"

definition call_class :: "host \<Rightarrow> exc_class \<Rightarrow> pyval list \<Rightarrow> py_exc + py_exc" where
  "call_class h c args =
     (if c = GenericError_cls then
        (case args of [exc_type, a] \<Rightarrow> Inr (new_GenericError exc_type a)
                    | _ \<Rightarrow> Inl (raised ''TypeError''))
      else if c = NotFoundError_cls \<or> c = Error_cls then Inr (Exc c args)
      else new_exception h c args)"

text \<open>\<^verbatim>\<open>_translate_error\<close>\<close>

definition translate_error ::
  "host \<Rightarrow> (string \<rightharpoonup> exc_class) \<Rightarrow> pyval \<Rightarrow> pyval \<Rightarrow> py_exc + py_exc" where
  "translate_error h tbl exc_type exc_args =
     (if \<not> hashable exc_type then Inl (raised ''TypeError'')
      else
        (case (case exc_type of VStr s \<Rightarrow> tbl s | _ \<Rightarrow> None) of
           None \<Rightarrow>
             (case py_iter exc_args of
                Inl e \<Rightarrow> Inl e
              | Inr items \<Rightarrow> Inr (new_GenericError exc_type (VTuple items)))
         | Some found \<Rightarrow>
             (case py_iter exc_args of
                Inl e \<Rightarrow> Inl e
              | Inr items \<Rightarrow> call_class h found items)))"

text \<open>\<^verbatim>\<open>_new_id\<close>: the counter is updated before the header is packed.\<close>

definition new_id :: "pyfloat \<Rightarrow> client \<Rightarrow> (py_exc + bytes \<times> int) \<times> client" where
  "new_id now c =
     (let c1 = c\<lparr>counter := counter c + 1\<rparr>;
          c2 = (if counter c1 > 0xffffffff then c1\<lparr>counter := 0\<rparr> else c1)
      in case REQ_SUFFIX_pack (counter c2) now of
           Inl e \<Rightarrow> (Inl e, c2)
         | Inr suffix \<Rightarrow> (Inr (prefix c2 @ suffix, counter c2), c2))"

text \<open>\<^verbatim>\<open>call\<close>\<close>

definition call ::
  "host \<Rightarrow> pyfloat \<Rightarrow> string \<Rightarrow> pyval \<Rightarrow> pyval \<Rightarrow> client \<Rightarrow> (py_exc + fut_id) \<times> client" where
  "call h now name args kwargs c =
     (let bname = encode_utf8 name in
      case packer_pack h args of
        Inl e \<Rightarrow> (Inl e, c)
      | Inr bargs \<Rightarrow>
      (case packer_pack h kwargs of
        Inl e \<Rightarrow> (Inl e, c)
      | Inr bkwargs \<Rightarrow>
      (case new_id now c of
        (Inl e, c1) \<Rightarrow> (Inl e, c1)
      | (Inr (header, req_id), c1) \<Rightarrow>
          if calls c1 req_id \<noteq> None then (Inl (raised ''AssertionError''), c1)
          else
            (let (fut, fs) = new_future (futures c1);
                 c2 = c1\<lparr>futures := fs, calls := (calls c1)(req_id \<mapsto> fut)\<rparr>
             in case transport_write (transport c2) [header, bname, bargs, bkwargs] of
                  Inl e \<Rightarrow> (Inl e, c2)
                | Inr tr \<Rightarrow> (Inr fut, c2\<lparr>transport := tr\<rparr>)))))"

text \<open>
  \<^verbatim>\<open>msg_received\<close> of the client. Everything up to \<^verbatim>\<open>unpacker.unpack()\<close> is inside the
  \<^verbatim>\<open>try\<close>; the rest is not.
\<close>

definition complete_call ::
  "host \<Rightarrow> fut_id \<Rightarrow> bool \<Rightarrow> pyval \<Rightarrow> client \<Rightarrow> (py_exc + unit) \<times> client" where
  "complete_call h fut is_error answer c =
     (if is_error then
        (case py_iter answer of
           Inl e \<Rightarrow> (Inl e, c)
         | Inr [exc_type, exc_args] \<Rightarrow>
             (case translate_error h (error_table c) exc_type exc_args of
                Inl e \<Rightarrow> (Inl e, c)
              | Inr exc \<Rightarrow>
                  (case set_exception fut exc (futures c) of
                     Inl e \<Rightarrow> (Inl e, c)
                   | Inr fs \<Rightarrow> (Inr (), c\<lparr>futures := fs\<rparr>)))
         | Inr _ \<Rightarrow> (Inl (raised ''TypeError''), c))
      else
        (case set_result fut answer (futures c) of
           Inl e \<Rightarrow> (Inl e, c)
         | Inr fs \<Rightarrow> (Inr (), c\<lparr>futures := fs\<rparr>)))"

definition client_msg_received :: "host \<Rightarrow> bytes list \<Rightarrow> client \<Rightarrow> (py_exc + unit) \<times> client" where
  "client_msg_received h data c =
     (case data of
        [header, banswer] \<Rightarrow>
          (case RESP_unpack header of
             Inl e \<Rightarrow> (Inr (), c\<lparr>logged := logged c @ [CannotUnpack data]\<rparr>)
           | Inr (pid, rnd, req_id, timestamp, is_error) \<Rightarrow>
               (case unpacker_unpack h (unpacker c @ banswer) of
                  (Inl e, rest) \<Rightarrow>
                    (Inr (), c\<lparr>unpacker := rest, logged := logged c @ [CannotUnpack data]\<rparr>)
                | (Inr answer, rest) \<Rightarrow>
                    (let c1 = c\<lparr>unpacker := rest\<rparr> in
                     case calls c1 req_id of
                       None \<Rightarrow>
                         (Inr (), c1\<lparr>logged := logged c1 @
                            [UnknownAnswerId req_id pid rnd timestamp is_error answer]\<rparr>)
                     | Some fut \<Rightarrow>
                         complete_call h fut is_error answer
                           (c1\<lparr>calls := (calls c1)(req_id := None)\<rparr>))))
      | _ \<Rightarrow> (Inr (), c\<lparr>logged := logged c @ [CannotUnpack data]\<rparr>))"

section \<open>Handlers and the endpoint marker\<close>

text \<open>\<^verbatim>\<open>getattr(obj, '__rpc__')\<close> succeeds; a bound method passes attribute reads on to its function.\<close>

fun has_rpc :: "pyobj \<Rightarrow> bool" where
  "has_rpc (Function n r co) = r"
| "has_rpc (Method f) = has_rpc f"
| "has_rpc (Handler r s items ex) = r"
| "has_rpc (Plain r s) = r"

text \<open>
  \<^verbatim>\<open>method(func)\<close> sets \<^verbatim>\<open>func.__rpc__\<close> and returns \<^verbatim>\<open>func\<close>. A function accepts the
  assignment; a bound method and every object that takes no new attribute raise
  \<^verbatim>\<open>AttributeError\<close>.
\<close>

fun method_marker :: "pyobj \<Rightarrow> py_exc + pyobj" where
  "method_marker (Function n r co) = Inr (Function n True co)"
| "method_marker (Method f) = Inl (raised ''AttributeError'')"
| "method_marker (Handler r s items ex) =
     (if s then Inr (Handler True s items ex) else Inl (raised ''AttributeError''))"
| "method_marker (Plain r s) =
     (if s then Inr (Plain True s) else Inl (raised ''AttributeError''))"

text \<open>
  \<^verbatim>\<open>isinstance(obj, AbstractHandler)\<close>: the class of the object defines \<^verbatim>\<open>__getitem__\<close>,
  whatever that lookup raises.
\<close>

fun is_handler :: "pyobj \<Rightarrow> bool" where
  "is_handler (Handler r s items ex) = True"
| "is_handler obj = False"

text \<open>
  \<^verbatim>\<open>obj[key]\<close> with a string key: the first item under the key, or the exception that the
  object's \<^verbatim>\<open>__getitem__\<close> raises for the keys it does not have; \<^verbatim>\<open>TypeError\<close> on an object
  that cannot be subscripted.
\<close>

fun getitem :: "pyobj \<Rightarrow> string \<Rightarrow> py_exc + pyobj" where
  "getitem (Handler r s items ex) key =
     (case map_of items key of None \<Rightarrow> Inl ex | Some v \<Rightarrow> Inr v)"
| "getitem obj key = Inl (raised ''TypeError'')"

fun iscoroutinefunction :: "pyobj \<Rightarrow> bool" where
  "iscoroutinefunction (Function n r co) = co"
| "iscoroutinefunction (Method f) = iscoroutinefunction f"
| "iscoroutinefunction obj = False"

section \<open>Splitting names\<close>

text \<open>\<^verbatim>\<open>name.rpartition('.')\<close> and \<^verbatim>\<open>namespaces.split('.')\<close>\<close>

definition not_dot :: "char \<Rightarrow> bool" where
  "not_dot c = (c \<noteq> CHR ''.'')"

definition rpartition_dot :: "string \<Rightarrow> string \<times> string \<times> string" where
  "rpartition_dot s =
     (if CHR ''.'' \<in> set s then
        (rev (tl (dropWhile not_dot (rev s))), ''.'', rev (takeWhile not_dot (rev s)))
      else ([], [], s))"

fun split_dot :: "string \<Rightarrow> string list" where
  "split_dot [] = [[]]"
| "split_dot (c # cs) =
     (if c = CHR ''.'' then [] # split_dot cs
      else (case split_dot cs of [] \<Rightarrow> [[c]] | p # ps \<Rightarrow> (c # p) # ps))"

section \<open>The server protocol\<close>

text \<open>
  \<open>callbacks\<close> holds the done-callbacks \<^verbatim>\<open>partial(self.process_call_result, req_id=...,
  peer=...)\<close> attached to futures; the loop calls them later, one call of
  \<open>process_call_result\<close> each.
\<close>

record server = protocol +
  handler :: pyobj
  callbacks :: "(fut_id \<times> int \<times> bytes) list"

text \<open>The \<^verbatim>\<open>for part in namespaces.split('.')\<close> loop of \<^verbatim>\<open>dispatch\<close>.\<close>

fun descend :: "string \<Rightarrow> pyobj \<Rightarrow> string list \<Rightarrow> py_exc + pyobj" where
  "descend name h [] = Inr h"
| "descend name h (part # parts) =
     (case getitem h part of
        Inl e \<Rightarrow> if cls_of e = builtin_cls ''KeyError'' then Inl (new_NotFoundError name) else Inl e
      | Inr h' \<Rightarrow>
          if \<not> is_handler h' then Inl (new_NotFoundError name) else descend name h' parts)"

definition dispatch :: "pyobj \<Rightarrow> string \<Rightarrow> py_exc + pyobj" where
  "dispatch root name =
     (if name = [] then Inl (new_NotFoundError name)
      else
        (case rpartition_dot name of (namespaces, sep, meth) \<Rightarrow>
           (case (if namespaces \<noteq> [] then descend name root (split_dot namespaces) else Inr root) of
              Inl e \<Rightarrow> Inl e
            | Inr h \<Rightarrow>
                (case getitem h meth of
                   Inl e \<Rightarrow>
                     if cls_of e = builtin_cls ''KeyError'' then Inl (new_NotFoundError name)
                     else Inl e
                 | Inr func \<Rightarrow>
                     (let holder = (case func of Method f \<Rightarrow> f | _ \<Rightarrow> func)
                      in if has_rpc holder then Inr func else Inl (new_NotFoundError name))))))"

text \<open>\<^verbatim>\<open>fut.result()\<close>\<close>

definition CancelledError :: py_exc where
  "CancelledError = Exc (ExcClass ''concurrent.futures._base'' ''CancelledError'') []"

definition fut_result :: "fut_id \<Rightarrow> fut_store \<Rightarrow> py_exc + pyval" where
  "fut_result f fs =
     (if f < length fs then
        (case fs ! f of
           Pending \<Rightarrow> Inl InvalidStateError
         | Cancelled \<Rightarrow> Inl CancelledError
         | Failed e \<Rightarrow> Inl e
         | Finished v \<Rightarrow> Inr v)
      else Inl InvalidStateError)"

text \<open>
  One response: \<^verbatim>\<open>prefix = self.prefix + self.RESP_SUFFIX.pack(req_id, time.time(), flag)\<close>,
  then \<^verbatim>\<open>self.transport.write([peer, prefix, self.packer.pack(payload)])\<close>. The attribute
  \<^verbatim>\<open>self.transport.write\<close> is read before the payload is packed.
\<close>

definition send_response ::
  "host \<Rightarrow> pyfloat \<Rightarrow> int \<Rightarrow> bytes \<Rightarrow> bool \<Rightarrow> pyval \<Rightarrow> server \<Rightarrow> py_exc + server" where
  "send_response h now req_id peer is_error payload s =
     (case RESP_SUFFIX_pack req_id now is_error of
        Inl e \<Rightarrow> Inl e
      | Inr suffix \<Rightarrow>
          (case transport s of
             None \<Rightarrow> Inl (raised ''AttributeError'')
           | Some w \<Rightarrow>
               (case packer_pack h payload of
                  Inl e \<Rightarrow> Inl e
                | Inr b \<Rightarrow> Inr (s\<lparr>transport := Some (w @ [[peer, prefix s @ suffix, b]])\<rparr>))))"

text \<open>The identifier \<^verbatim>\<open>exc_type.__module__ + '.' + exc_type.__name__\<close>.\<close>

definition exc_identifier :: "exc_class \<Rightarrow> string" where
  "exc_identifier c = cls_module c @ ''.'' @ cls_name c"

text \<open>
  \<^verbatim>\<open>process_call_result\<close>. The clock is read once in each branch: \<open>now\<close> in the
  \<^verbatim>\<open>try\<close>, \<open>now'\<close> in the \<^verbatim>\<open>except\<close>.
\<close>

definition process_call_result ::
  "host \<Rightarrow> pyfloat \<Rightarrow> pyfloat \<Rightarrow> fut_id \<Rightarrow> int \<Rightarrow> bytes \<Rightarrow> server \<Rightarrow> (py_exc + unit) \<times> server" where
  "process_call_result h now now' fut req_id peer s =
     (case (case fut_result fut (futures s) of
              Inl exc \<Rightarrow> Inl exc
            | Inr ret \<Rightarrow> send_response h now req_id peer False ret s) of
        Inr s' \<Rightarrow> (Inr (), s')
      | Inl exc \<Rightarrow>
          (let exc_info = VTuple [VStr (exc_identifier (cls_of exc)), VTuple (args_of exc)]
           in case send_response h now' req_id peer True exc_info s of
                Inl e \<Rightarrow> (Inl e, s)
              | Inr s' \<Rightarrow> (Inr (), s')))"

text \<open>
  \<^verbatim>\<open>msg_received\<close> of the server. Nothing but the call of \<^verbatim>\<open>dispatch\<close> (for
  \<^verbatim>\<open>NotFoundError\<close>) and the call of a plain function is inside a \<^verbatim>\<open>try\<close>.
\<close>

definition add_done_callback :: "fut_id \<Rightarrow> int \<Rightarrow> bytes \<Rightarrow> server \<Rightarrow> server" where
  "add_done_callback fut req_id peer s = s\<lparr>callbacks := callbacks s @ [(fut, req_id, peer)]\<rparr>"

definition server_new_future :: "server \<Rightarrow> fut_id \<times> server" where
  "server_new_future s = (case new_future (futures s) of (fut, fs) \<Rightarrow> (fut, s\<lparr>futures := fs\<rparr>))"

definition server_settle :: "fut_id \<Rightarrow> fut_state \<Rightarrow> server \<Rightarrow> (py_exc + unit) \<times> server" where
  "server_settle fut st s =
     (case settle fut st (futures s) of
        Inl e \<Rightarrow> (Inl e, s)
      | Inr fs \<Rightarrow> (Inr (), s\<lparr>futures := fs\<rparr>))"

definition invoke ::
  "host \<Rightarrow> pyobj \<Rightarrow> pyval \<Rightarrow> pyval \<Rightarrow> int \<Rightarrow> bytes \<Rightarrow> server \<Rightarrow> (py_exc + unit) \<times> server" where
  "invoke h func args kwargs req_id peer s =
     (if iscoroutinefunction func then
        (case call_coro h func args kwargs of
           Some e \<Rightarrow> (Inl e, s)
         | None \<Rightarrow>
             (case server_new_future s of
                (fut, s1) \<Rightarrow> (Inr (), add_done_callback fut req_id peer s1)))
      else
        (case server_new_future s of
           (fut, s1) \<Rightarrow>
             (let s2 = add_done_callback fut req_id peer s1
              in case call_sync h func args kwargs of
                   Inr ret \<Rightarrow> server_settle fut (Finished ret) s2
                 | Inl exc \<Rightarrow> server_settle fut (Failed exc) s2)))"

definition server_msg_received :: "host \<Rightarrow> bytes list \<Rightarrow> server \<Rightarrow> (py_exc + unit) \<times> server" where
  "server_msg_received h data s =
     (case data of
        [peer, header, bname, bargs, bkwargs] \<Rightarrow>
          (case REQ_unpack header of
             Inl e \<Rightarrow> (Inl e, s)
           | Inr (pid, rnd, req_id, timestamp) \<Rightarrow>
               (case decode_utf8 h bname of
                  Inl e \<Rightarrow> (Inl e, s)
                | Inr name \<Rightarrow>
                    (case dispatch (handler s) name of
                       Inl exc \<Rightarrow>
                         if cls_of exc = NotFoundError_cls then
                           (case server_new_future s of
                              (fut, s1) \<Rightarrow>
                                server_settle fut (Failed exc) (add_done_callback fut req_id peer s1))
                         else (Inl exc, s)
                     | Inr func \<Rightarrow>
                         (case unpacker_unpack h (unpacker s @ bargs) of
                            (Inl e, rest) \<Rightarrow> (Inl e, s\<lparr>unpacker := rest\<rparr>)
                          | (Inr args, rest) \<Rightarrow>
                              (case unpacker_unpack h (rest @ bkwargs) of
                                 (Inl e, rest') \<Rightarrow> (Inl e, s\<lparr>unpacker := rest'\<rparr>)
                               | (Inr kwargs, rest') \<Rightarrow>
                                   invoke h func args kwargs req_id peer (s\<lparr>unpacker := rest'\<rparr>))))))
      | _ \<Rightarrow> (Inl (raised ''ValueError''), s))"

section \<open>A concrete host\<close>

text \<open>
  A host to run the definitions on: the serializer is a fragment of MessagePack (nil,
  booleans, positive fixint, fixstr, fixarray, fixmap; tuples are written as arrays and arrays
  are read back as lists), the standard classes are a handful of names, and every class
  outside this module has the constructor of \<^verbatim>\<open>Exception\<close>.
\<close>

fun mp_enc :: "pyval \<Rightarrow> bytes option" where
  "mp_enc VNone = Some [0xc0]"
| "mp_enc (VBool b) = Some [if b then 0xc3 else 0xc2]"
| "mp_enc (VInt i) = (if 0 \<le> i \<and> i < 128 then Some [of_int i] else None)"
| "mp_enc (VStr s) =
     (if length s < 32 then Some (of_nat (160 + length s) # map of_char s) else None)"
| "mp_enc (VList xs) =
     (if length xs < 16
      then map_option (\<lambda>bs. of_nat (144 + length xs) # concat bs) (those (map mp_enc xs))
      else None)"
| "mp_enc (VTuple xs) =
     (if length xs < 16
      then map_option (\<lambda>bs. of_nat (144 + length xs) # concat bs) (those (map mp_enc xs))
      else None)"
| "mp_enc (VDict kvs) =
     (if length kvs < 16
      then map_option (\<lambda>bs. of_nat (128 + length kvs) # concat bs)
             (those (map (\<lambda>(k, v). case (mp_enc k, mp_enc v) of
                                     (Some a, Some b) \<Rightarrow> Some (a @ b) | _ \<Rightarrow> None) kvs))
      else None)"
| "mp_enc v = None"

fun pair_up :: "'a list \<Rightarrow> ('a \<times> 'a) list" where
  "pair_up (k # v # rest) = (k, v) # pair_up rest"
| "pair_up rest = []"

fun mp_dec :: "nat \<Rightarrow> bytes \<Rightarrow> (pyval \<times> bytes) option"
  and mp_dec_items :: "nat \<Rightarrow> nat \<Rightarrow> bytes \<Rightarrow> (pyval list \<times> bytes) option" where
  "mp_dec 0 bs = None"
| "mp_dec (Suc fuel) [] = None"
| "mp_dec (Suc fuel) (b # bs) =
     (if b < 0x80 then Some (VInt (uint b), bs)
      else if b = 0xc0 then Some (VNone, bs)
      else if b = 0xc2 then Some (VBool False, bs)
      else if b = 0xc3 then Some (VBool True, bs)
      else if 0x90 \<le> b \<and> b \<le> 0x9f then
        (case mp_dec_items fuel (unat b - 144) bs of
           None \<Rightarrow> None
         | Some (xs, rest) \<Rightarrow> Some (VList xs, rest))
      else if 0x80 \<le> b \<and> b \<le> 0x8f then
        (case mp_dec_items fuel (2 * (unat b - 128)) bs of
           None \<Rightarrow> None
         | Some (xs, rest) \<Rightarrow> Some (VDict (pair_up xs), rest))
      else if 0xa0 \<le> b \<and> b \<le> 0xbf then
        (if length bs < unat b - 160 then None
         else Some (VStr (map (\<lambda>x. char_of (unat x)) (take (unat b - 160) bs)),
                    drop (unat b - 160) bs))
      else None)"
| "mp_dec_items fuel 0 bs = Some ([], bs)"
| "mp_dec_items fuel (Suc k) bs =
     (case mp_dec fuel bs of
        None \<Rightarrow> None
      | Some (v, rest) \<Rightarrow>
          (case mp_dec_items fuel k rest of
             None \<Rightarrow> None
           | Some (vs, rest') \<Rightarrow> Some (v # vs, rest')))"

definition unpack_error :: py_exc where
  "unpack_error = Exc (ExcClass ''msgpack.exceptions'' ''UnpackException'') []"

definition example_host :: host where
  "example_host =
     \<lparr>packer_pack = (\<lambda>v. case mp_enc v of None \<Rightarrow> Inl (raised ''TypeError'') | Some b \<Rightarrow> Inr b),
      unpacker_unpack =
        (\<lambda>buf. case mp_dec (Suc (length buf)) buf of
                  None \<Rightarrow> (Inl unpack_error, buf)
                | Some (v, rest) \<Rightarrow> (Inr v, rest)),
      builtins_dir =
        [(''EnvironmentError'', ExceptionClass (builtin_cls ''OSError'')),
         (''KeyError'', ExceptionClass (builtin_cls ''KeyError'')),
         (''OSError'', ExceptionClass (builtin_cls ''OSError'')),
         (''ValueError'', ExceptionClass (builtin_cls ''ValueError'')),
         (''len'', OtherObject)],
      new_exception = (\<lambda>c args. Inr (Exc c args)),
      utf8_ok = list_all (\<lambda>b. b < 0x80),
      call_sync = (\<lambda>f args kwargs. Inl (Exc (builtin_cls ''ValueError'') [VStr ''boom''])),
      call_coro = (\<lambda>f args kwargs. None)\<rparr>"

definition example_client :: client where
  "example_client =
     \<lparr>transport = Some [], done_waiters = [], unpacker = [], prefix = [1, 0, 2, 0],
      futures = [], logged = [],
      calls = Map.empty, counter = 0, error_table = fill_error_table example_host\<rparr>"

text \<open>
  A \<^verbatim>\<open>str\<close> value, such as the \<^verbatim>\<open>__module__\<close> that \<^verbatim>\<open>getattr\<close> finds on every \<^verbatim>\<open>AttrHandler\<close>:
  its class defines \<^verbatim>\<open>__getitem__\<close>, and a string key raises \<^verbatim>\<open>TypeError\<close>. The root of the
  example tree is an \<^verbatim>\<open>AttrHandler\<close> with a sub-handler \<^verbatim>\<open>ns\<close>, a function \<^verbatim>\<open>fail\<close> and an
  integer \<^verbatim>\<open>version\<close>.
\<close>

definition str_object :: pyobj where
  "str_object = Handler False False [] (raised ''TypeError'')"

definition example_server :: server where
  "example_server =
     \<lparr>transport = Some [], done_waiters = [], unpacker = [], prefix = [3, 0, 4, 0],
      futures = [], logged = [],
      handler =
        Handler False True
          [(''ns'', Handler False True
              [(''add'', Function ''add'' True False),
               (''hidden'', Function ''hidden'' False False),
               (''bound'', Method (Function ''bound'' True False))]
              (raised ''KeyError'')),
           (''fail'', Function ''fail'' True False),
           (''version'', Plain False False),
           (''__module__'', str_object)]
          (raised ''KeyError''),
      callbacks = []\<rparr>"

section \<open>Request ids\<close>

text \<open>The spec's rule for the next request id: increment, and wrap to 0 beyond \<open>0xFFFFFFFF\<close>.\<close>

definition wrap_next :: "int \<Rightarrow> int" where
  "wrap_next v = (if v + 1 > 0xffffffff then 0 else v + 1)"

section \<open>States in which no future has been settled from outside\<close>

text \<open>
  Nothing in \<^verbatim>\<open>rpc.py\<close> cancels a future. \<open>registry_pending\<close> says that every future of
  the call registry is a pending future of the store and is not a shutdown waiter;
  \<open>waiters_pending\<close> says that the shutdown waiters are distinct pending futures.
  \<open>wait_closed\<close> is the part of \<^verbatim>\<open>_RPCServer.wait_closed\<close> before it suspends.
\<close>

definition registry_pending :: "client \<Rightarrow> bool" where
  "registry_pending c \<longleftrightarrow>
     (\<forall>req_id fut. calls c req_id = Some fut \<longrightarrow>
        fut < length (futures c) \<and> futures c ! fut = Pending \<and> fut \<notin> set (done_waiters c))"

definition waiters_pending :: "'a protocol_scheme \<Rightarrow> bool" where
  "waiters_pending p \<longleftrightarrow>
     distinct (done_waiters p)
     \<and> (\<forall>w\<in>set (done_waiters p). w < length (futures p) \<and> futures p ! w = Pending)"

definition wait_closed :: "'a protocol_scheme \<Rightarrow> fut_id option \<times> 'a protocol_scheme" where
  "wait_closed p =
     (if transport p = None then (None, p)
      else (case new_future (futures p) of
              (waiter, fs) \<Rightarrow>
                (Some waiter, p\<lparr>futures := fs, done_waiters := done_waiters p @ [waiter]\<rparr>)))"

definition busy_client :: client where
  "busy_client =
     example_client\<lparr>futures := [Pending, Pending, Pending], done_waiters := [1, 2],
                    calls := [5 \<mapsto> 0], counter := 5\<rparr>"

section \<open>Name resolution as the spec words it\<close>

text \<open>
  The spec: split the name on the last dot into the namespace path and the leaf; from
  the root handler look up each segment of the namespace path, which must resolve to a
  handler; then look up the leaf on the handler reached. A missing key is \<open>None\<close>.
\<close>

definition lookup :: "pyobj \<Rightarrow> string \<Rightarrow> pyobj option" where
  "lookup h key = (case h of Handler r s items ex \<Rightarrow> map_of items key | _ \<Rightarrow> None)"

fun resolve_path :: "pyobj \<Rightarrow> string list \<Rightarrow> pyobj option" where
  "resolve_path h [] = Some h"
| "resolve_path h (seg # segs) =
     (case lookup h seg of
        None \<Rightarrow> None
      | Some child \<Rightarrow> if is_handler child then resolve_path child segs else None)"

definition namespace_path :: "string \<Rightarrow> string list" where
  "namespace_path name =
     (case rpartition_dot name of
        (namespaces, sep, leaf) \<Rightarrow> if namespaces = [] then [] else split_dot namespaces)"

definition leaf_name :: "string \<Rightarrow> string" where
  "leaf_name name = (case rpartition_dot name of (namespaces, sep, leaf) \<Rightarrow> leaf)"

definition resolve_leaf :: "pyobj \<Rightarrow> string \<Rightarrow> pyobj option" where
  "resolve_leaf root name =
     (if name = [] then None
      else (case resolve_path root (namespace_path name) of
              None \<Rightarrow> None
            | Some h \<Rightarrow> lookup h (leaf_name name)))"

text \<open>
  The spec has one way for a lookup to fail: the key is missing. In the code that is a
  lookup that raises \<^verbatim>\<open>KeyError\<close>. \<open>missing_is_KeyError\<close> says that the lookup at which the
  resolution of a path and a leaf stops, if there is one, is on an object that raises
  \<^verbatim>\<open>KeyError\<close> for the keys it does not have.
\<close>

fun raises_KeyError :: "pyobj \<Rightarrow> bool" where
  "raises_KeyError (Handler r s items ex) = (cls_of ex = builtin_cls ''KeyError'')"
| "raises_KeyError obj = False"

fun missing_is_KeyError :: "pyobj \<Rightarrow> string list \<Rightarrow> string \<Rightarrow> bool" where
  "missing_is_KeyError h [] leaf =
     (case lookup h leaf of None \<Rightarrow> raises_KeyError h | Some v \<Rightarrow> True)"
| "missing_is_KeyError h (seg # segs) leaf =
     (case lookup h seg of
        None \<Rightarrow> raises_KeyError h
      | Some child \<Rightarrow> if is_handler child then missing_is_KeyError child segs leaf else True)"

text \<open>The endpoint marker: on the value itself or, for a bound method, on its function.\<close>

definition endpoint_marked :: "pyobj \<Rightarrow> bool" where
  "endpoint_marked v = has_rpc (case v of Method f \<Rightarrow> f | _ \<Rightarrow> v)"

section \<open>Sequences of calls\<close>

text \<open>
  A sequence of \<^verbatim>\<open>call\<close> invocations with no response in between. The trace keeps, for
  each invocation, the counter after it (the request id it allocated) and its outcome.
\<close>

type_synonym request = "pyfloat \<times> string \<times> pyval \<times> pyval"

fun run_calls :: "host \<Rightarrow> request list \<Rightarrow> client \<Rightarrow> (int \<times> (py_exc + fut_id)) list \<times> client" where
  "run_calls h [] c = ([], c)"
| "run_calls h ((now, name, args, kwargs) # reqs) c =
     (case call h now name args kwargs c of
        (r, c1) \<Rightarrow>
          (case run_calls h reqs c1 of
             (tr, c2) \<Rightarrow> ((counter c1, r) # tr, c2)))"

definition registered :: "(int \<times> (py_exc + fut_id)) list \<Rightarrow> (int \<times> fut_id) list" where
  "registered tr = concat (map (\<lambda>(i, r). case r of Inl e \<Rightarrow> [] | Inr f \<Rightarrow> [(i, f)]) tr)"

definition two_requests :: "request list" where
  "two_requests =
     [(7, ''ns.add'', VTuple [VInt 2, VInt 3], VDict []),
      (8, ''fail'', VTuple [], VDict [])]"

definition failed_server :: server where
  "failed_server =
     example_server\<lparr>futures := [Failed (Exc (builtin_cls ''ValueError'') [VStr ''boom''])],
                     callbacks := [(0, 5, [0x70])]\<rparr>"

section \<open>Construction and the invariant of the client\<close>

text \<open>
  \<^verbatim>\<open>_ClientProtocol.__init__\<close> and \<^verbatim>\<open>_ServerProtocol.__init__\<close>, given the process id, the
  random number drawn and the futures the loop already holds.
\<close>

definition client_init :: "host \<Rightarrow> int \<Rightarrow> int \<Rightarrow> fut_store \<Rightarrow> py_exc + client" where
  "client_init h pid rnd fs =
     (case PREFIX_pack (pid mod 0x10000) rnd of
        Inl e \<Rightarrow> Inl e
      | Inr p \<Rightarrow>
          Inr \<lparr>transport = None, done_waiters = [], unpacker = [], prefix = p, futures = fs,
               logged = [], calls = Map.empty, counter = 0, error_table = fill_error_table h\<rparr>)"

definition server_init :: "pyobj \<Rightarrow> int \<Rightarrow> int \<Rightarrow> fut_store \<Rightarrow> py_exc + server" where
  "server_init root pid rnd fs =
     (case PREFIX_pack (pid mod 0x10000) rnd of
        Inl e \<Rightarrow> Inl e
      | Inr p \<Rightarrow>
          Inr \<lparr>transport = None, done_waiters = [], unpacker = [], prefix = p, futures = fs,
               logged = [], handler = root, callbacks = []\<rparr>)"

text \<open>
  What holds of a client as long as only the operations of this module touch its futures:
  the registry maps distinct ids to distinct pending futures, the shutdown waiters are
  distinct pending futures that are not in the registry, the counter is a 32-bit value
  and the prefix has four bytes.
\<close>

definition client_inv :: "client \<Rightarrow> bool" where
  "client_inv c \<longleftrightarrow>
     registry_pending c \<and> waiters_pending c
     \<and> (\<forall>r r' f. calls c r = Some f \<and> calls c r' = Some f \<longrightarrow> r = r')
     \<and> 0 \<le> counter c \<and> counter c \<le> 0xffffffff \<and> length (prefix c) = 4"

section \<open>Properties\<close>

subsection \<open>Request ids\<close>

lemma pack_uint4: "0 \<le> v \<Longrightarrow> v \<le> 0xffffffff \<Longrightarrow> pack_uint 4 v = Inr (enc_le 4 (nat v))"
  by (simp add: pack_uint_def)

lemma new_id_eq:
  "0 \<le> counter c \<Longrightarrow>
     new_id now c =
       (Inr (prefix c @ enc_le 4 (nat (wrap_next (counter c))) @ pack_d now, wrap_next (counter c)),
        c\<lparr>counter := wrap_next (counter c)\<rparr>)"
  unfolding new_id_def wrap_next_def REQ_SUFFIX_pack_def Let_def
  by (simp add: pack_uint4)

text \<open>
  C5. Request-id wrap. On a client whose counter is not negative, \<open>new_id\<close> stores and
  returns \<open>wrap_next\<close> of the counter: when the incremented counter exceeds \<open>0xFFFFFFFF\<close>
  the counter becomes 0 and 0 is returned; from a counter \<open>v < 0xFFFFFFFF\<close> it returns
  \<open>v + 1\<close>; and the allocation that follows one that returned \<open>0xFFFFFFFF\<close> returns 0.
\<close>

theorem new_id_wrap:
  assumes "0 \<le> counter c"
  shows "counter (snd (new_id now c)) = wrap_next (counter c)
     \<and> fst (new_id now c) =
         Inr (prefix c @ enc_le 4 (nat (wrap_next (counter c))) @ pack_d now, wrap_next (counter c))
     \<and> (0xffffffff < counter c + 1 \<longrightarrow>
          fst (new_id now c) = Inr (prefix c @ enc_le 4 0 @ pack_d now, 0)
          \<and> counter (snd (new_id now c)) = 0)
     \<and> (counter c < 0xffffffff \<longrightarrow>
          fst (new_id now c) = Inr (prefix c @ enc_le 4 (nat (counter c + 1)) @ pack_d now, counter c + 1))
     \<and> (\<forall>hdr. fst (new_id now c) = Inr (hdr, 0xffffffff) \<longrightarrow>
          fst (new_id now' (snd (new_id now c))) = Inr (prefix c @ enc_le 4 0 @ pack_d now', 0))"
proof -
  have eq: "new_id now c =
       (Inr (prefix c @ enc_le 4 (nat (wrap_next (counter c))) @ pack_d now, wrap_next (counter c)),
        c\<lparr>counter := wrap_next (counter c)\<rparr>)"
    using assms by (rule new_id_eq)
  have nonneg: "0 \<le> wrap_next (counter c)"
    using assms by (simp add: wrap_next_def)
  have next_eq: "new_id now' (c\<lparr>counter := wrap_next (counter c)\<rparr>) =
       (Inr (prefix c @ enc_le 4 (nat (wrap_next (wrap_next (counter c)))) @ pack_d now',
             wrap_next (wrap_next (counter c))),
        c\<lparr>counter := wrap_next (wrap_next (counter c))\<rparr>)"
    using new_id_eq [of "c\<lparr>counter := wrap_next (counter c)\<rparr>" now'] nonneg by simp
  have w0: "wrap_next 0xffffffff = 0"
    by (simp add: wrap_next_def)
  show ?thesis
    unfolding eq next_eq fst_conv snd_conv
    using assms w0 by (auto simp: wrap_next_def)
qed

theorem new_id_wrap_witness:
  "0 \<le> counter (example_client\<lparr>counter := 0xfffffffe\<rparr>)
   \<and> (\<exists>hdr. fst (new_id 7 (example_client\<lparr>counter := 0xfffffffe\<rparr>)) = Inr (hdr, 0xffffffff))
   \<and> (\<exists>hdr. fst (new_id 8 (snd (new_id 7 (example_client\<lparr>counter := 0xfffffffe\<rparr>)))) = Inr (hdr, 0))"
  using new_id_wrap [of "example_client\<lparr>counter := 0xfffffffe\<rparr>" 7 8]
  by (simp add: wrap_next_def)

subsection \<open>Futures and shutdown waiters\<close>

lemma settle_pending:
  "f < length fs \<Longrightarrow> fs ! f = Pending \<Longrightarrow> settle f st fs = Inr (fs[f := st])"
  by (simp add: settle_def)

lemma settle_frame:
  "settle f st fs = Inr fs' \<Longrightarrow> length fs' = length fs \<and> (\<forall>i. i \<noteq> f \<longrightarrow> fs' ! i = fs ! i)"
  by (auto simp: settle_def split: if_splits)

lemma resolve_waiters_frame:
  "length (snd (resolve_waiters ws fs)) = length fs
   \<and> (\<forall>i. i \<notin> set ws \<longrightarrow> snd (resolve_waiters ws fs) ! i = fs ! i)"
proof (induction ws arbitrary: fs)
  case Nil
  show ?case by simp
next
  case (Cons w ws)
  show ?case
  proof (cases "set_result w VNone fs")
    case (Inl e)
    then show ?thesis by simp
  next
    case (Inr fs')
    then have "length fs' = length fs \<and> (\<forall>i. i \<noteq> w \<longrightarrow> fs' ! i = fs ! i)"
      by (simp add: set_result_def settle_frame)
    with Inr Cons.IH [of fs'] show ?thesis by simp
  qed
qed

lemma resolve_waiters_ok:
  "distinct ws \<Longrightarrow> \<forall>w\<in>set ws. w < length fs \<and> fs ! w = Pending \<Longrightarrow>
   fst (resolve_waiters ws fs) = Inr ()
   \<and> (\<forall>w\<in>set ws. snd (resolve_waiters ws fs) ! w = Finished VNone)"
proof (induction ws arbitrary: fs)
  case Nil
  show ?case by simp
next
  case (Cons w ws)
  let ?fs' = "fs[w := Finished VNone]"
  have step: "set_result w VNone fs = Inr ?fs'"
    using Cons.prems by (simp add: set_result_def settle_pending)
  have pend: "\<forall>v\<in>set ws. v < length ?fs' \<and> ?fs' ! v = Pending"
    using Cons.prems by (auto simp: nth_list_update)
  have dist: "distinct ws" and notin: "w \<notin> set ws"
    using Cons.prems by auto
  have IH: "fst (resolve_waiters ws ?fs') = Inr ()
     \<and> (\<forall>v\<in>set ws. snd (resolve_waiters ws ?fs') ! v = Finished VNone)"
    using Cons.IH [OF dist pend] .
  have "snd (resolve_waiters ws ?fs') ! w = ?fs' ! w"
    using resolve_waiters_frame [of ws ?fs'] notin by blast
  moreover have "?fs' ! w = Finished VNone"
    using Cons.prems by simp
  ultimately show ?case
    using IH step by simp
qed

lemma busy_client_fields:
  "calls busy_client = [5 \<mapsto> 0]" "futures busy_client = [Pending, Pending, Pending]"
  "done_waiters busy_client = [1, 2]" "unpacker busy_client = []"
  "error_table busy_client = fill_error_table example_host"
  "transport busy_client = Some []" "logged busy_client = []"
  by (simp_all add: busy_client_def example_client_def)

lemma busy_client_pending: "waiters_pending busy_client" "registry_pending busy_client"
  by (simp_all add: waiters_pending_def registry_pending_def busy_client_fields)

text \<open>
  C10. \<open>connection_lost\<close> neither rejects nor drains pending calls. In every client state
  it sets the transport to \<^verbatim>\<open>None\<close>, leaves every entry of the call registry in place and
  leaves every registered future that is not a shutdown waiter in the state it had; when
  the registry holds pending futures only, each of them is still pending afterwards. When
  the shutdown waiters are distinct pending futures, as \<open>wait_closed\<close> registers them, it
  returns without raising and every waiter is resolved with \<^verbatim>\<open>None\<close>.
\<close>

theorem connection_lost_keeps_calls:
  fixes c :: client
  shows "transport (snd (connection_lost exc c)) = None
     \<and> calls (snd (connection_lost exc c)) = calls c
     \<and> (\<forall>req_id fut. calls c req_id = Some fut \<and> fut \<notin> set (done_waiters c) \<longrightarrow>
          futures (snd (connection_lost exc c)) ! fut = futures c ! fut)
     \<and> (registry_pending c \<longrightarrow>
          (\<forall>req_id fut. calls (snd (connection_lost exc c)) req_id = Some fut \<longrightarrow>
             futures (snd (connection_lost exc c)) ! fut = Pending))
     \<and> (waiters_pending c \<longrightarrow>
          fst (connection_lost exc c) = Inr ()
          \<and> (\<forall>w\<in>set (done_waiters c). futures (snd (connection_lost exc c)) ! w = Finished VNone))"
proof -
  obtain r fs where rw: "resolve_waiters (done_waiters c) (futures c) = (r, fs)"
    by (cases "resolve_waiters (done_waiters c) (futures c)")
  have cl: "connection_lost exc c = (r, c\<lparr>transport := None, futures := fs\<rparr>)"
    by (simp add: connection_lost_def rw)
  have frame: "\<forall>i. i \<notin> set (done_waiters c) \<longrightarrow> fs ! i = futures c ! i"
    using resolve_waiters_frame [of "done_waiters c" "futures c"] rw by simp
  have ok: "waiters_pending c \<Longrightarrow> r = Inr () \<and> (\<forall>w\<in>set (done_waiters c). fs ! w = Finished VNone)"
    using resolve_waiters_ok [of "done_waiters c" "futures c"] rw
    by (simp add: waiters_pending_def)
  have reg: "registry_pending c \<Longrightarrow> \<forall>req_id fut. calls c req_id = Some fut \<longrightarrow> fs ! fut = Pending"
    using frame by (simp add: registry_pending_def)
  show ?thesis
    unfolding cl using frame ok reg by simp
qed

theorem connection_lost_keeps_calls_witness:
  "calls busy_client 5 = Some 0 \<and> 0 \<notin> set (done_waiters busy_client)
   \<and> registry_pending busy_client \<and> waiters_pending busy_client
   \<and> transport (snd (connection_lost None busy_client)) = None
   \<and> calls (snd (connection_lost None busy_client)) 5 = Some 0
   \<and> futures (snd (connection_lost None busy_client)) ! 0 = Pending
   \<and> fst (connection_lost None busy_client) = Inr ()
   \<and> futures (snd (connection_lost None busy_client)) ! 1 = Finished VNone
   \<and> futures (snd (connection_lost None busy_client)) ! 2 = Finished VNone"
  using connection_lost_keeps_calls [where c = busy_client and exc = None] busy_client_pending
  by (simp add: busy_client_fields)

subsection \<open>Responses the client drops\<close>

text \<open>
  C7. Unmatched-response drop. A two-frame response whose header unpacks and whose
  payload decodes, but whose request id is not a key of the call registry, is logged at
  critical severity and dropped: \<open>client_msg_received\<close> returns without raising, and
  the call registry and every future are exactly as before.
\<close>

theorem unmatched_response_dropped:
  assumes "RESP_unpack header = Inr (pid, rnd, req_id, timestamp, is_error)"
    and "unpacker_unpack h (unpacker c @ banswer) = (Inr answer, rest)"
    and "calls c req_id = None"
  shows "client_msg_received h [header, banswer] c =
           (Inr (), c\<lparr>unpacker := rest,
                      logged := logged c @ [UnknownAnswerId req_id pid rnd timestamp is_error answer]\<rparr>)
     \<and> calls (snd (client_msg_received h [header, banswer] c)) = calls c
     \<and> futures (snd (client_msg_received h [header, banswer] c)) = futures c"
  using assms by (simp add: client_msg_received_def)

theorem unmatched_response_dropped_witness:
  "RESP_unpack [3, 0, 4, 0, 9, 0, 0, 0, 0, 0, 0, 0, 0, 0, 0, 0, 0] = Inr (3, 4, 9, 0, False)
   \<and> unpacker_unpack example_host (unpacker busy_client @ [5]) = (Inr (VInt 5), [])
   \<and> calls busy_client 9 = None
   \<and> fst (client_msg_received example_host
            [[3, 0, 4, 0, 9, 0, 0, 0, 0, 0, 0, 0, 0, 0, 0, 0, 0], [5]] busy_client) = Inr ()
   \<and> logged (snd (client_msg_received example_host
            [[3, 0, 4, 0, 9, 0, 0, 0, 0, 0, 0, 0, 0, 0, 0, 0, 0], [5]] busy_client)) =
       [UnknownAnswerId 9 3 4 0 False (VInt 5)]
   \<and> calls (snd (client_msg_received example_host
            [[3, 0, 4, 0, 9, 0, 0, 0, 0, 0, 0, 0, 0, 0, 0, 0, 0], [5]] busy_client)) 5 = Some 0
   \<and> futures (snd (client_msg_received example_host
            [[3, 0, 4, 0, 9, 0, 0, 0, 0, 0, 0, 0, 0, 0, 0, 0, 0], [5]] busy_client)) =
       [Pending, Pending, Pending]"
proof -
  have h1: "RESP_unpack [3, 0, 4, 0, 9, 0, 0, 0, 0, 0, 0, 0, 0, 0, 0, 0, 0] = Inr (3, 4, 9, 0, False)"
    by (simp add: RESP_unpack_def)
  have h2: "unpacker_unpack example_host (unpacker busy_client @ [5]) = (Inr (VInt 5), [])"
    by (simp add: busy_client_fields example_host_def)
  have h3: "calls busy_client 9 = None"
    by (simp add: busy_client_fields)
  show ?thesis
    using unmatched_response_dropped [OF h1 h2 h3] h1 h2 h3
    by (simp add: busy_client_fields)
qed

text \<open>
  C8. Client decode-failure atomicity. When the message is not a list of two frames, or
  its header does not unpack, or its payload does not decode, \<open>client_msg_received\<close>
  logs \<open>CannotUnpack\<close> at critical severity and returns; the call registry, the futures
  and the transport are unchanged, so a matching entry stays registered and pending.
  (The header layout \<^verbatim>\<open>=HHLd?\<close> is 17 bytes long; a header of any other length is one of
  the failures.)
\<close>

theorem decode_failure_keeps_registry:
  assumes "length data \<noteq> 2
     \<or> (\<exists>e. RESP_unpack (data ! 0) = Inl e)
     \<or> (\<exists>e. fst (unpacker_unpack h (unpacker c @ data ! 1)) = Inl e)"
  shows "fst (client_msg_received h data c) = Inr ()
     \<and> logged (snd (client_msg_received h data c)) = logged c @ [CannotUnpack data]
     \<and> calls (snd (client_msg_received h data c)) = calls c
     \<and> futures (snd (client_msg_received h data c)) = futures c
     \<and> transport (snd (client_msg_received h data c)) = transport c"
proof (cases "length data = 2")
  case False
  then have "client_msg_received h data c = (Inr (), c\<lparr>logged := logged c @ [CannotUnpack data]\<rparr>)"
    by (auto simp: client_msg_received_def split: list.splits)
  then show ?thesis by simp
next
  case True
  then obtain header banswer where d: "data = [header, banswer]"
    by (auto simp: numeral_2_eq_2 length_Suc_conv)
  show ?thesis
  proof (cases "RESP_unpack header")
    case (Inl e)
    then show ?thesis by (simp add: d client_msg_received_def)
  next
    case (Inr t)
    then have "\<exists>e. fst (unpacker_unpack h (unpacker c @ banswer)) = Inl e"
      using assms d by simp
    then obtain e rest where "unpacker_unpack h (unpacker c @ banswer) = (Inl e, rest)"
      by (cases "unpacker_unpack h (unpacker c @ banswer)") auto
    with Inr show ?thesis
      by (simp add: d client_msg_received_def split: prod.splits)
  qed
qed

theorem decode_failure_keeps_registry_witness:
  "RESP_unpack ([replicate 23 0, [5]] ! 0) = Inl struct_error
   \<and> fst (client_msg_received example_host [replicate 23 0, [5]] busy_client) = Inr ()
   \<and> logged (snd (client_msg_received example_host [replicate 23 0, [5]] busy_client)) =
       [CannotUnpack [replicate 23 0, [5]]]
   \<and> calls (snd (client_msg_received example_host [replicate 23 0, [5]] busy_client)) 5 = Some 0
   \<and> futures (snd (client_msg_received example_host [replicate 23 0, [5]] busy_client)) ! 0 = Pending"
proof -
  have h1: "RESP_unpack ([replicate 23 0, [5]] ! 0) = Inl struct_error"
    by (simp add: RESP_unpack_def)
  then have "length [replicate 23 0, [5::byte]] \<noteq> 2
     \<or> (\<exists>e. RESP_unpack ([replicate 23 0, [5]] ! 0) = Inl e)
     \<or> (\<exists>e. fst (unpacker_unpack example_host (unpacker busy_client @ [replicate 23 0, [5]] ! 1)) = Inl e)"
    by blast
  from decode_failure_keeps_registry [OF this] h1 show ?thesis
    by (simp add: busy_client_fields)
qed

subsection \<open>Error translation\<close>

lemma example_table_miss: "fill_error_table example_host ''app.MyError'' = None"
  by (simp add: fill_error_table_def example_host_def rpc_module_def)

lemma example_table_hit:
  "fill_error_table example_host ''builtins.ValueError'' = Some (builtin_cls ''ValueError'')"
  by (simp add: fill_error_table_def example_host_def rpc_module_def)

lemma complete_call_error:
  assumes "py_iter answer = Inr [exc_type, exc_args]"
    and "translate_error h (error_table c) exc_type exc_args = Inr exc"
    and "fut < length (futures c)" and "futures c ! fut = Pending"
  shows "complete_call h fut True answer c = (Inr (), c\<lparr>futures := (futures c)[fut := Failed exc]\<rparr>)"
  using assms by (simp add: complete_call_def set_exception_def settle_pending)

lemma client_msg_received_error:
  assumes "RESP_unpack header = Inr (pid, rnd, req_id, timestamp, True)"
    and "unpacker_unpack h (unpacker c @ banswer) = (Inr answer, rest)"
    and "py_iter answer = Inr [exc_type, exc_args]"
    and "translate_error h (error_table c) exc_type exc_args = Inr exc"
    and "calls c req_id = Some fut" and "fut < length (futures c)" and "futures c ! fut = Pending"
  shows "client_msg_received h [header, banswer] c =
           (Inr (), c\<lparr>unpacker := rest, calls := (calls c)(req_id := None),
                      futures := (futures c)[fut := Failed exc]\<rparr>)"
proof -
  let ?c2 = "c\<lparr>unpacker := rest, calls := (calls c)(req_id := None)\<rparr>"
  have "complete_call h fut True answer ?c2 =
          (Inr (), ?c2\<lparr>futures := (futures ?c2)[fut := Failed exc]\<rparr>)"
    using assms(3-7) by (intro complete_call_error) simp_all
  then show ?thesis
    using assms(1,2,5) by (simp add: client_msg_received_def)
qed

text \<open>
  C4. Unknown-kind error translation. For an identifier string and an argument sequence,
  \<open>translate_error\<close> returns \<^verbatim>\<open>GenericError(identifier, tuple(args))\<close> when the identifier
  is not a key of the error table, and the registered constructor applied to the
  arguments when it is. On an error response for a registered, pending call the client
  rejects the matching future with that error and removes the entry.
\<close>

theorem unknown_error_translation:
  assumes "RESP_unpack header = Inr (pid, rnd, req_id, timestamp, True)"
    and "unpacker_unpack h (unpacker c @ banswer) = (Inr answer, rest)"
    and "py_iter answer = Inr [VStr ident, exc_args]"
    and "py_iter exc_args = Inr items"
    and "calls c req_id = Some fut" and "fut < length (futures c)" and "futures c ! fut = Pending"
  shows "(error_table c ident = None \<longrightarrow>
            translate_error h (error_table c) (VStr ident) exc_args =
              Inr (new_GenericError (VStr ident) (VTuple items))
            \<and> client_msg_received h [header, banswer] c =
                (Inr (), c\<lparr>unpacker := rest, calls := (calls c)(req_id := None),
                           futures := (futures c)
                             [fut := Failed (new_GenericError (VStr ident) (VTuple items))]\<rparr>))
     \<and> (\<forall>found exc. error_table c ident = Some found \<longrightarrow>
            translate_error h (error_table c) (VStr ident) exc_args = call_class h found items
            \<and> (call_class h found items = Inr exc \<longrightarrow>
                 client_msg_received h [header, banswer] c =
                   (Inr (), c\<lparr>unpacker := rest, calls := (calls c)(req_id := None),
                              futures := (futures c)[fut := Failed exc]\<rparr>)))"
proof -
  have miss: "translate_error h (error_table c) (VStr ident) exc_args =
                Inr (new_GenericError (VStr ident) (VTuple items))"
    if "error_table c ident = None"
    using that assms(4) by (simp add: translate_error_def)
  have hit: "translate_error h (error_table c) (VStr ident) exc_args = call_class h found items"
    if "error_table c ident = Some found" for found
    using that assms(4) by (simp add: translate_error_def)
  show ?thesis
    using miss hit client_msg_received_error [OF assms(1,2,3) _ assms(5,6,7)]
    by (auto simp del: fun_upd_apply)
qed

theorem unknown_error_translation_witness:
  "error_table busy_client ''app.MyError'' = None
   \<and> calls busy_client 5 = Some 0 \<and> futures busy_client ! 0 = Pending
   \<and> translate_error example_host (error_table busy_client) (VStr ''app.MyError'')
        (VList [VStr ''boom'']) =
       Inr (new_GenericError (VStr ''app.MyError'') (VTuple [VStr ''boom'']))
   \<and> fst (client_msg_received example_host
        [[3, 0, 4, 0, 5, 0, 0, 0, 0, 0, 0, 0, 0, 0, 0, 0, 1],
         [0x92, 0xab, 0x61, 0x70, 0x70, 0x2e, 0x4d, 0x79, 0x45, 0x72, 0x72, 0x6f, 0x72,
          0x91, 0xa4, 0x62, 0x6f, 0x6f, 0x6d]] busy_client) = Inr ()
   \<and> futures (snd (client_msg_received example_host
        [[3, 0, 4, 0, 5, 0, 0, 0, 0, 0, 0, 0, 0, 0, 0, 0, 1],
         [0x92, 0xab, 0x61, 0x70, 0x70, 0x2e, 0x4d, 0x79, 0x45, 0x72, 0x72, 0x6f, 0x72,
          0x91, 0xa4, 0x62, 0x6f, 0x6f, 0x6d]] busy_client)) ! 0 =
       Failed (new_GenericError (VStr ''app.MyError'') (VTuple [VStr ''boom'']))
   \<and> calls (snd (client_msg_received example_host
        [[3, 0, 4, 0, 5, 0, 0, 0, 0, 0, 0, 0, 0, 0, 0, 0, 1],
         [0x92, 0xab, 0x61, 0x70, 0x70, 0x2e, 0x4d, 0x79, 0x45, 0x72, 0x72, 0x6f, 0x72,
          0x91, 0xa4, 0x62, 0x6f, 0x6f, 0x6d]] busy_client)) 5 = None"
proof -
  have h1: "RESP_unpack [3, 0, 4, 0, 5, 0, 0, 0, 0, 0, 0, 0, 0, 0, 0, 0, 1] = Inr (3, 4, 5, 0, True)"
    by (simp add: RESP_unpack_def)
  have dec: "unpacker_unpack example_host
        ([] @ [0x92, 0xab, 0x61, 0x70, 0x70, 0x2e, 0x4d, 0x79, 0x45, 0x72, 0x72, 0x6f, 0x72,
          0x91, 0xa4, 0x62, 0x6f, 0x6f, 0x6d]) =
      (Inr (VList [VStr ''app.MyError'', VList [VStr ''boom'']]), [])"
    by code_simp
  have h2: "unpacker_unpack example_host
        (unpacker busy_client @ [0x92, 0xab, 0x61, 0x70, 0x70, 0x2e, 0x4d, 0x79, 0x45, 0x72, 0x72,
          0x6f, 0x72, 0x91, 0xa4, 0x62, 0x6f, 0x6f, 0x6d]) =
      (Inr (VList [VStr ''app.MyError'', VList [VStr ''boom'']]), [])"
    unfolding busy_client_fields by (rule dec)
  have h3: "py_iter (VList [VStr ''app.MyError'', VList [VStr ''boom'']]) =
      Inr [VStr ''app.MyError'', VList [VStr ''boom'']]"
    by simp
  have h4: "py_iter (VList [VStr ''boom'']) = Inr [VStr ''boom'']"
    by simp
  have h5: "calls busy_client 5 = Some 0" "0 < length (futures busy_client)"
    "futures busy_client ! 0 = Pending"
    by (simp_all add: busy_client_fields)
  have h6: "error_table busy_client ''app.MyError'' = None"
    by (simp add: busy_client_fields example_table_miss)
  show ?thesis
    using unknown_error_translation [OF h1 h2 h3 h4 h5] h5 h6
    by (simp add: busy_client_fields)
qed

subsection \<open>Dispatch\<close>

lemma getitem_found: "lookup h key = Some v \<Longrightarrow> getitem h key = Inr v"
  by (cases h) (simp_all add: lookup_def)

lemma getitem_returns: "getitem h key = Inr v \<Longrightarrow> lookup h key = Some v"
  by (cases h) (auto simp: lookup_def split: option.splits)

lemma getitem_missing:
  "lookup h key = None \<Longrightarrow> raises_KeyError h \<Longrightarrow>
   \<exists>e. getitem h key = Inl e \<and> cls_of e = builtin_cls ''KeyError''"
  by (cases h) (simp_all add: lookup_def)

lemma descend_reaches: "(descend name h segs = Inr h') \<longleftrightarrow> (resolve_path h segs = Some h')"
proof (induction segs arbitrary: h)
  case Nil
  show ?case by auto
next
  case (Cons seg segs)
  show ?case
  proof (cases "lookup h seg")
    case None
    then have "\<nexists>v. getitem h seg = Inr v"
      using getitem_returns by fastforce
    then show ?thesis
      using None by (cases "getitem h seg") auto
  next
    case (Some child)
    then have "getitem h seg = Inr child"
      by (rule getitem_found)
    then show ?thesis
      using Some Cons.IH [of child] by simp
  qed
qed

lemma descend_missing:
  "resolve_path h segs = None \<Longrightarrow> missing_is_KeyError h segs leaf \<Longrightarrow>
   descend name h segs = Inl (new_NotFoundError name)"
proof (induction segs arbitrary: h)
  case Nil
  then show ?case by simp
next
  case (Cons seg segs)
  show ?case
  proof (cases "lookup h seg")
    case None
    then have "raises_KeyError h"
      using Cons.prems(2) by simp
    then obtain e where "getitem h seg = Inl e" and "cls_of e = builtin_cls ''KeyError''"
      using getitem_missing [OF None] by blast
    then show ?thesis by simp
  next
    case (Some child)
    then have g: "getitem h seg = Inr child"
      by (rule getitem_found)
    show ?thesis
    proof (cases "is_handler child")
      case True
      then have "resolve_path child segs = None" and "missing_is_KeyError child segs leaf"
        using Cons.prems Some by simp_all
      then show ?thesis
        using Cons.IH g True by simp
    next
      case False
      then show ?thesis using g by simp
    qed
  qed
qed

lemma missing_at_leaf:
  "resolve_path h segs = Some h' \<Longrightarrow>
   missing_is_KeyError h segs leaf =
     (case lookup h' leaf of None \<Rightarrow> raises_KeyError h' | Some v \<Rightarrow> True)"
  by (induction segs arbitrary: h) (auto split: option.splits if_splits)

text \<open>The body of \<open>dispatch\<close> for a non-empty name, with the two parts of the name named.\<close>

lemma dispatch_unfold:
  assumes "name \<noteq> []"
  shows "dispatch root name =
     (case descend name root (namespace_path name) of
        Inl e \<Rightarrow> Inl e
      | Inr h \<Rightarrow>
          (case getitem h (leaf_name name) of
             Inl e \<Rightarrow>
               if cls_of e = builtin_cls ''KeyError'' then Inl (new_NotFoundError name) else Inl e
           | Inr func \<Rightarrow>
               if endpoint_marked func then Inr func else Inl (new_NotFoundError name)))"
proof -
  obtain namespaces sep leaf where rp: "rpartition_dot name = (namespaces, sep, leaf)"
    by (cases "rpartition_dot name") auto
  have walk: "(if namespaces \<noteq> [] then descend name root (split_dot namespaces) else Inr root) =
      descend name root (namespace_path name)"
    by (simp add: namespace_path_def rp)
  have leaf: "leaf_name name = leaf"
    by (simp add: leaf_name_def rp)
  show ?thesis
    unfolding dispatch_def rp prod.case walk leaf using assms
    by (simp add: endpoint_marked_def Let_def split: sum.splits)
qed

lemma dispatch_resolved:
  assumes "resolve_leaf root name = Some v"
  shows "dispatch root name =
     (if endpoint_marked v then Inr v else Inl (new_NotFoundError name))"
proof -
  have ne: "name \<noteq> []"
    using assms by (auto simp: resolve_leaf_def split: if_splits)
  obtain h where h: "resolve_path root (namespace_path name) = Some h"
    and v: "lookup h (leaf_name name) = Some v"
    using assms ne by (auto simp: resolve_leaf_def split: option.splits)
  have "descend name root (namespace_path name) = Inr h"
    using h by (simp add: descend_reaches)
  moreover have "getitem h (leaf_name name) = Inr v"
    using v by (rule getitem_found)
  ultimately show ?thesis
    by (simp add: dispatch_unfold [OF ne])
qed

lemma dispatch_returns:
  assumes "dispatch root name = Inr f"
  shows "resolve_leaf root name = Some f \<and> endpoint_marked f"
proof -
  have ne: "name \<noteq> []"
    using assms by (auto simp: dispatch_def)
  obtain h where d: "descend name root (namespace_path name) = Inr h"
    using assms unfolding dispatch_unfold [OF ne]
    by (cases "descend name root (namespace_path name)") auto
  have g: "getitem h (leaf_name name) = Inr f" and m: "endpoint_marked f"
    using assms unfolding dispatch_unfold [OF ne] d
    by (cases "getitem h (leaf_name name)"; simp split: if_splits)+
  have "resolve_path root (namespace_path name) = Some h"
    using d by (simp add: descend_reaches)
  moreover have "lookup h (leaf_name name) = Some f"
    using g by (rule getitem_returns)
  ultimately show ?thesis
    using ne m by (simp add: resolve_leaf_def)
qed

lemma dispatch_missing:
  assumes "name \<noteq> []" and "resolve_leaf root name = None"
    and "missing_is_KeyError root (namespace_path name) (leaf_name name)"
  shows "dispatch root name = Inl (new_NotFoundError name)"
proof (cases "resolve_path root (namespace_path name)")
  case None
  then have "descend name root (namespace_path name) = Inl (new_NotFoundError name)"
    using assms(3) by (rule descend_missing)
  then show ?thesis
    by (simp add: dispatch_unfold [OF assms(1)])
next
  case (Some h)
  then have d: "descend name root (namespace_path name) = Inr h"
    by (simp add: descend_reaches)
  have none: "lookup h (leaf_name name) = None"
    using assms(1,2) Some by (simp add: resolve_leaf_def)
  then have "raises_KeyError h"
    using assms(3) missing_at_leaf [OF Some, of "leaf_name name"] by simp
  then obtain e where "getitem h (leaf_name name) = Inl e" and "cls_of e = builtin_cls ''KeyError''"
    using getitem_missing [OF none] by blast
  then show ?thesis
    using d by (simp add: dispatch_unfold [OF assms(1)])
qed

lemma example_root: "is_handler (handler example_server)"
  by code_simp

lemma example_add:
  "resolve_leaf (handler example_server) ''ns.add'' = Some (Function ''add'' True False)"
  by code_simp

lemma example_hidden:
  "resolve_leaf (handler example_server) ''ns.hidden'' = Some (Function ''hidden'' False False)"
  by code_simp

lemma example_bound:
  "resolve_leaf (handler example_server) ''ns.bound'' = Some (Method (Function ''bound'' True False))"
  by code_simp

lemma example_missing: "resolve_leaf (handler example_server) ''ns.missing'' = None"
  by code_simp

lemma example_missing_KeyError:
  "missing_is_KeyError (handler example_server) (namespace_path ''ns.missing'')
     (leaf_name ''ns.missing'')"
  by code_simp

lemma example_plain: "resolve_leaf (handler example_server) ''version.real'' = None"
  by code_simp

lemma example_plain_KeyError:
  "missing_is_KeyError (handler example_server) (namespace_path ''version.real'')
     (leaf_name ''version.real'')"
  by code_simp

lemma example_hidden_dispatch:
  "dispatch (handler example_server) ''ns.hidden'' = Inl (new_NotFoundError ''ns.hidden'')"
  by code_simp

text \<open>
  C2, as stated, fails: the leaf \<^verbatim>\<open>ns.hidden\<close> of the example tree resolves along handlers
  only, and \<open>dispatch\<close> still raises \<^verbatim>\<open>NotFoundError\<close>, because the function does not carry
  the endpoint marker.
\<close>

theorem dispatch_exactly_when_resolved_counterexample:
  "\<not> (\<forall>root name. is_handler root \<longrightarrow>
        ((\<exists>f. dispatch root name = Inr f) \<longleftrightarrow> (\<exists>v. resolve_leaf root name = Some v)))"
proof
  assume "\<forall>root name. is_handler root \<longrightarrow>
        ((\<exists>f. dispatch root name = Inr f) \<longleftrightarrow> (\<exists>v. resolve_leaf root name = Some v))"
  then have "\<exists>f. dispatch (handler example_server) ''ns.hidden'' = Inr f"
    using example_root example_hidden by blast
  then show False
    by (simp add: example_hidden_dispatch)
qed

text \<open>
  C2, amended. For every root object and every name, \<open>dispatch\<close> returns a value exactly
  when the name resolves as the spec words it (non-empty name, every segment of the
  namespace path resolving to a handler, the leaf found on the last handler) to a value
  that carries the endpoint marker, and then it returns that value. It raises
  \<^verbatim>\<open>NotFoundError\<close> carrying the full name when the name is empty, when the leaf resolves
  but does not carry the marker, and when the name does not resolve and the lookup at
  which the resolution stops, if any, reports the missing key with \<^verbatim>\<open>KeyError\<close>: a missing
  intermediate key, an intermediate value that is not a handler, a missing leaf key.
  Nothing is said here of a lookup that fails with another exception.
\<close>

theorem dispatch_resolves_marked:
  "((\<exists>f. dispatch root name = Inr f) \<longleftrightarrow>
      (\<exists>v. resolve_leaf root name = Some v \<and> endpoint_marked v))
   \<and> (\<forall>v. resolve_leaf root name = Some v \<and> endpoint_marked v \<longrightarrow> dispatch root name = Inr v)
   \<and> (name = [] \<longrightarrow> dispatch root name = Inl (new_NotFoundError name))
   \<and> (\<forall>v. resolve_leaf root name = Some v \<and> \<not> endpoint_marked v \<longrightarrow>
        dispatch root name = Inl (new_NotFoundError name))
   \<and> (resolve_leaf root name = None
        \<and> missing_is_KeyError root (namespace_path name) (leaf_name name) \<longrightarrow>
        dispatch root name = Inl (new_NotFoundError name))"
proof -
  have a: "(\<exists>f. dispatch root name = Inr f) \<longleftrightarrow>
      (\<exists>v. resolve_leaf root name = Some v \<and> endpoint_marked v)"
  proof
    assume "\<exists>f. dispatch root name = Inr f"
    then obtain f where "dispatch root name = Inr f" ..
    then have "resolve_leaf root name = Some f \<and> endpoint_marked f"
      by (rule dispatch_returns)
    then show "\<exists>v. resolve_leaf root name = Some v \<and> endpoint_marked v" ..
  next
    assume "\<exists>v. resolve_leaf root name = Some v \<and> endpoint_marked v"
    then obtain v where v: "resolve_leaf root name = Some v" and m: "endpoint_marked v"
      by blast
    have "dispatch root name = Inr v"
      using dispatch_resolved [OF v] m by simp
    then show "\<exists>f. dispatch root name = Inr f" ..
  qed
  have b: "\<forall>v. resolve_leaf root name = Some v \<and> endpoint_marked v \<longrightarrow> dispatch root name = Inr v"
  proof (intro allI impI)
    fix v
    assume h: "resolve_leaf root name = Some v \<and> endpoint_marked v"
    then have v: "resolve_leaf root name = Some v" and m: "endpoint_marked v"
      by simp_all
    show "dispatch root name = Inr v"
      using dispatch_resolved [OF v] m by simp
  qed
  have c: "name = [] \<longrightarrow> dispatch root name = Inl (new_NotFoundError name)"
    by (simp add: dispatch_def)
  have d: "\<forall>v. resolve_leaf root name = Some v \<and> \<not> endpoint_marked v \<longrightarrow>
        dispatch root name = Inl (new_NotFoundError name)"
  proof (intro allI impI)
    fix v
    assume h: "resolve_leaf root name = Some v \<and> \<not> endpoint_marked v"
    then have v: "resolve_leaf root name = Some v" and m: "\<not> endpoint_marked v"
      by simp_all
    show "dispatch root name = Inl (new_NotFoundError name)"
      using dispatch_resolved [OF v] m by simp
  qed
  have e: "resolve_leaf root name = None
        \<and> missing_is_KeyError root (namespace_path name) (leaf_name name) \<longrightarrow>
        dispatch root name = Inl (new_NotFoundError name)"
  proof (intro impI)
    assume h: "resolve_leaf root name = None
        \<and> missing_is_KeyError root (namespace_path name) (leaf_name name)"
    show "dispatch root name = Inl (new_NotFoundError name)"
    proof (cases "name = []")
      case True
      then show ?thesis using c by simp
    next
      case False
      then show ?thesis
        using h by (intro dispatch_missing) simp_all
    qed
  qed
  from a b c d e show ?thesis
    by (intro conjI)
qed

theorem dispatch_resolves_marked_witness:
  "dispatch (handler example_server) ''ns.add'' = Inr (Function ''add'' True False)
   \<and> dispatch (handler example_server) [] = Inl (new_NotFoundError [])
   \<and> dispatch (handler example_server) ''ns.hidden'' = Inl (new_NotFoundError ''ns.hidden'')
   \<and> dispatch (handler example_server) ''ns.missing'' = Inl (new_NotFoundError ''ns.missing'')
   \<and> dispatch (handler example_server) ''version.real'' = Inl (new_NotFoundError ''version.real'')"
proof -
  have m: "endpoint_marked (Function ''add'' True False)"
    and n: "\<not> endpoint_marked (Function ''hidden'' False False)"
    by (simp_all add: endpoint_marked_def)
  have a: "dispatch (handler example_server) ''ns.add'' = Inr (Function ''add'' True False)"
    using dispatch_resolves_marked [of "handler example_server" "''ns.add''"] example_add m
    by blast
  have b: "dispatch (handler example_server) [] = Inl (new_NotFoundError [])"
    using dispatch_resolves_marked [of "handler example_server" "[]"] by blast
  have c: "dispatch (handler example_server) ''ns.hidden'' = Inl (new_NotFoundError ''ns.hidden'')"
    using dispatch_resolves_marked [of "handler example_server" "''ns.hidden''"] example_hidden n
    by blast
  have d: "dispatch (handler example_server) ''ns.missing'' = Inl (new_NotFoundError ''ns.missing'')"
    using dispatch_resolves_marked [of "handler example_server" "''ns.missing''"]
      example_missing example_missing_KeyError by blast
  have e: "dispatch (handler example_server) ''version.real'' = Inl (new_NotFoundError ''version.real'')"
    using dispatch_resolves_marked [of "handler example_server" "''version.real''"]
      example_plain example_plain_KeyError by blast
  show ?thesis
    using a b c d e by blast
qed

text \<open>
  What the amended C2 leaves out. A \<^verbatim>\<open>str\<close> value passes \<^verbatim>\<open>isinstance(_, AbstractHandler)\<close>,
  and its lookup raises \<^verbatim>\<open>TypeError\<close>, which \<^verbatim>\<open>except KeyError\<close> does not catch: the exception
  leaves \<open>dispatch\<close> as it is, and \<open>server_msg_received\<close> after it.
\<close>

lemma dispatch_lookup_raises_TypeError:
  "is_handler str_object
   \<and> resolve_leaf (handler example_server) ''__module__.real'' = None
   \<and> \<not> missing_is_KeyError (handler example_server) (namespace_path ''__module__.real'')
         (leaf_name ''__module__.real'')
   \<and> dispatch (handler example_server) ''__module__.real'' = Inl (raised ''TypeError'')
   \<and> dispatch (handler example_server) ''__module__.real.deep'' = Inl (raised ''TypeError'')"
  by code_simp

text \<open>
  C3. Endpoint gating. When the path of a name resolves to a leaf value, \<open>dispatch\<close>
  returns that value if and only if the value (for a bound method, its underlying
  function) carries the marker attribute; without the marker it raises \<^verbatim>\<open>NotFoundError\<close>
  with the name. Whatever the decorator \<open>method_marker\<close> returns carries the marker.
\<close>

theorem endpoint_gating:
  assumes "is_handler root" and "resolve_leaf root name = Some v"
  shows "(dispatch root name = Inr v \<longleftrightarrow> endpoint_marked v)
     \<and> (\<forall>f. dispatch root name = Inr f \<longrightarrow> f = v \<and> endpoint_marked v)
     \<and> (\<not> endpoint_marked v \<longrightarrow> dispatch root name = Inl (new_NotFoundError name))
     \<and> (\<forall>f. method_marker f = Inr v \<longrightarrow> endpoint_marked v)"
proof -
  have deco: "endpoint_marked v" if "method_marker f = Inr v" for f
    using that by (cases f) (auto simp: endpoint_marked_def split: if_splits)
  show ?thesis
    using dispatch_resolved [OF assms(2)] deco by auto
qed

theorem endpoint_gating_witness:
  "is_handler (handler example_server)
   \<and> resolve_leaf (handler example_server) ''ns.hidden'' = Some (Function ''hidden'' False False)
   \<and> \<not> endpoint_marked (Function ''hidden'' False False)
   \<and> dispatch (handler example_server) ''ns.hidden'' = Inl (new_NotFoundError ''ns.hidden'')
   \<and> resolve_leaf (handler example_server) ''ns.bound'' = Some (Method (Function ''bound'' True False))
   \<and> dispatch (handler example_server) ''ns.bound'' = Inr (Method (Function ''bound'' True False))"
proof -
  have m1: "\<not> endpoint_marked (Function ''hidden'' False False)"
    by (simp add: endpoint_marked_def)
  have m2: "endpoint_marked (Method (Function ''bound'' True False))"
    by (simp add: endpoint_marked_def)
  have a: "dispatch (handler example_server) ''ns.hidden'' = Inl (new_NotFoundError ''ns.hidden'')"
    using endpoint_gating [OF example_root example_hidden] m1 by blast
  have b: "dispatch (handler example_server) ''ns.bound'' = Inr (Method (Function ''bound'' True False))"
    using endpoint_gating [OF example_root example_bound] m2 by blast
  show ?thesis
    using example_root example_hidden example_bound m1 a b by blast
qed

subsection \<open>Registering calls\<close>

lemma new_id_frame:
  "calls (snd (new_id now c)) = calls c \<and> futures (snd (new_id now c)) = futures c
   \<and> transport (snd (new_id now c)) = transport c
   \<and> done_waiters (snd (new_id now c)) = done_waiters c"
  by (simp add: new_id_def Let_def split: sum.splits)

lemma new_id_returns_counter:
  "new_id now c = (Inr (hdr, req_id), c1) \<Longrightarrow> req_id = counter c1"
  by (auto simp: new_id_def Let_def split: sum.splits if_splits)

lemma call_registry:
  assumes "call h now name args kwargs c = (r, c1)"
  shows "(\<forall>i f. calls c i = Some f \<longrightarrow> calls c1 i = Some f)
     \<and> length (futures c) \<le> length (futures c1)
     \<and> (\<forall>fut. r = Inr fut \<longrightarrow>
          calls c (counter c1) = None \<and> calls c1 (counter c1) = Some fut
          \<and> fut = length (futures c) \<and> futures c1 = futures c @ [Pending])"
proof (cases "packer_pack h args")
  case (Inl e)
  then show ?thesis using assms by (auto simp: call_def)
next
  case bargs: (Inr bargs)
  show ?thesis
  proof (cases "packer_pack h kwargs")
    case (Inl e)
    then show ?thesis using assms bargs by (auto simp: call_def)
  next
    case bkwargs: (Inr bkwargs)
    obtain r0 c0 where nid: "new_id now c = (r0, c0)"
      by (cases "new_id now c")
    have fr: "calls c0 = calls c" "futures c0 = futures c"
      using new_id_frame [of now c] nid by simp_all
    show ?thesis
    proof (cases r0)
      case (Inl e)
      then show ?thesis
        using assms bargs bkwargs nid fr by (auto simp: call_def)
    next
      case (Inr p)
      obtain hdr req_id where p: "p = (hdr, req_id)" by (cases p)
      have rid: "req_id = counter c0"
        using new_id_returns_counter nid Inr p by blast
      show ?thesis
      proof (cases "calls c0 req_id")
        case (Some f0)
        then show ?thesis
          using assms bargs bkwargs nid Inr p fr by (auto simp: call_def)
      next
        case None
        then show ?thesis
          using assms bargs bkwargs nid Inr p fr rid
          by (auto simp: call_def new_future_def transport_write_def Let_def
              split: option.splits)
      qed
    qed
  qed
qed

lemma call_assertion:
  assumes "packer_pack h args = Inr bargs" and "packer_pack h kwargs = Inr bkwargs"
    and "0 \<le> counter c" and "calls c (wrap_next (counter c)) = Some f0"
  shows "call h now name args kwargs c =
           (Inl (raised ''AssertionError''), c\<lparr>counter := wrap_next (counter c)\<rparr>)"
  using assms by (simp add: call_def new_id_eq)

lemma registered_Cons:
  "registered ((i, r) # tr) = (case r of Inl e \<Rightarrow> [] | Inr f \<Rightarrow> [(i, f)]) @ registered tr"
  by (simp add: registered_def)

lemma run_calls_registry:
  "run_calls h reqs c = (tr, c') \<Longrightarrow>
     distinct (map fst (registered tr))
     \<and> distinct (map snd (registered tr))
     \<and> (\<forall>(i, f)\<in>set (registered tr).
           calls c i = None \<and> calls c' i = Some f \<and> length (futures c) \<le> f)
     \<and> (\<forall>i f. calls c i = Some f \<longrightarrow> calls c' i = Some f)
     \<and> length (futures c) \<le> length (futures c')"
proof (induction reqs arbitrary: c tr c')
  case Nil
  then show ?case by (simp add: registered_def)
next
  case (Cons req reqs)
  obtain now name args kwargs where req: "req = (now, name, args, kwargs)"
    by (cases req) auto
  obtain r c1 where step: "call h now name args kwargs c = (r, c1)"
    by (cases "call h now name args kwargs c")
  obtain tr1 where rest: "run_calls h reqs c1 = (tr1, c')" and tr: "tr = (counter c1, r) # tr1"
    using Cons.prems req step by (auto split: prod.splits)
  note IH = Cons.IH [OF rest]
  have keep: "\<forall>i f. calls c i = Some f \<longrightarrow> calls c1 i = Some f"
    using call_registry [OF step] by blast
  have grow: "length (futures c) \<le> length (futures c1)"
    using call_registry [OF step] by blast
  have keepN: "calls c i = None" if "calls c1 i = None" for i
    using keep that by (cases "calls c i") auto
  have ih1: "distinct (map fst (registered tr1))" and ih2: "distinct (map snd (registered tr1))"
    and ih3: "\<And>i f. (i, f) \<in> set (registered tr1) \<Longrightarrow>
                calls c1 i = None \<and> calls c' i = Some f \<and> length (futures c1) \<le> f"
    and ih4: "\<And>i f. calls c1 i = Some f \<Longrightarrow> calls c' i = Some f"
    and ih5: "length (futures c1) \<le> length (futures c')"
    using IH by auto
  have old: "calls c i = None \<and> calls c' i = Some f \<and> length (futures c) \<le> f"
    if "(i, f) \<in> set (registered tr1)" for i f
    using ih3 [OF that] keepN grow by auto
  have keep': "\<forall>i f. calls c i = Some f \<longrightarrow> calls c' i = Some f"
    using keep ih4 by blast
  have grow': "length (futures c) \<le> length (futures c')"
    using grow ih5 by simp
  show ?case
  proof (cases r)
    case (Inl e)
    then have reg: "registered tr = registered tr1"
      by (simp add: tr registered_Cons)
    show ?thesis
      unfolding reg using ih1 ih2 old keep' grow' by auto
  next
    case (Inr fut)
    then have reg: "registered tr = (counter c1, fut) # registered tr1"
      by (simp add: tr registered_Cons)
    have new: "calls c (counter c1) = None" "calls c1 (counter c1) = Some fut"
      "fut = length (futures c)" "futures c1 = futures c @ [Pending]"
      using call_registry [OF step] Inr by blast+
    have notin: "counter c1 \<notin> fst ` set (registered tr1)"
    proof
      assume "counter c1 \<in> fst ` set (registered tr1)"
      then obtain f where "(counter c1, f) \<in> set (registered tr1)" by auto
      then have "calls c1 (counter c1) = None" using ih3 by blast
      with new(2) show False by simp
    qed
    have notin_f: "fut \<notin> snd ` set (registered tr1)"
    proof
      assume "fut \<in> snd ` set (registered tr1)"
      then obtain i where "(i, fut) \<in> set (registered tr1)" by auto
      then have "length (futures c1) \<le> fut" using ih3 by blast
      with new(3,4) show False by simp
    qed
    have here: "calls c' (counter c1) = Some fut"
      using ih4 new(2) by blast
    show ?thesis
      unfolding reg using ih1 ih2 notin notin_f old here new(1,3) keep' grow' by auto
  qed
qed

text \<open>
  C6. Unique in-flight ids. Over any sequence of \<open>call\<close> invocations with no response in
  between, the request ids under which the invocations registered their futures are
  pairwise distinct, none of them was registered before, each still maps to its own
  future afterwards, and no earlier entry of the registry is removed or rebound. A
  request id that is already in the registry is fatal: \<open>call\<close> raises
  \<^verbatim>\<open>AssertionError\<close> before it creates a future, registers or writes anything.
\<close>

theorem unique_in_flight_ids:
  assumes "run_calls h reqs c = (tr, c')"
  shows "distinct (map fst (registered tr))
     \<and> distinct (map snd (registered tr))
     \<and> (\<forall>(i, f)\<in>set (registered tr). calls c i = None \<and> calls c' i = Some f)
     \<and> (\<forall>i f. calls c i = Some f \<longrightarrow> calls c' i = Some f)
     \<and> (\<forall>now name args kwargs bargs bkwargs f0.
           packer_pack h args = Inr bargs \<and> packer_pack h kwargs = Inr bkwargs
           \<and> 0 \<le> counter c \<and> calls c (wrap_next (counter c)) = Some f0 \<longrightarrow>
           call h now name args kwargs c =
             (Inl (raised ''AssertionError''), c\<lparr>counter := wrap_next (counter c)\<rparr>))"
proof -
  have "distinct (map fst (registered tr)) \<and> distinct (map snd (registered tr))
     \<and> (\<forall>(i, f)\<in>set (registered tr). calls c i = None \<and> calls c' i = Some f)
     \<and> (\<forall>i f. calls c i = Some f \<longrightarrow> calls c' i = Some f)"
    using run_calls_registry [OF assms] by fastforce
  moreover have "call h now name args kwargs c =
             (Inl (raised ''AssertionError''), c\<lparr>counter := wrap_next (counter c)\<rparr>)"
    if "packer_pack h args = Inr bargs" "packer_pack h kwargs = Inr bkwargs"
      "0 \<le> counter c" "calls c (wrap_next (counter c)) = Some f0"
    for now name args kwargs bargs bkwargs f0
    using that by (rule call_assertion)
  ultimately show ?thesis by blast
qed

theorem unique_in_flight_ids_witness:
  "registered (fst (run_calls example_host two_requests example_client)) = [(1, 0), (2, 1)]
   \<and> distinct (map fst (registered (fst (run_calls example_host two_requests example_client))))
   \<and> calls (snd (run_calls example_host two_requests example_client)) 1 = Some 0
   \<and> calls (snd (run_calls example_host two_requests example_client)) 2 = Some 1
   \<and> calls (busy_client\<lparr>counter := 4\<rparr>) (wrap_next (counter (busy_client\<lparr>counter := 4\<rparr>))) = Some 0
   \<and> fst (call example_host 9 ''ns.add'' (VTuple []) (VDict []) (busy_client\<lparr>counter := 4\<rparr>)) =
       Inl (raised ''AssertionError'')"
proof -
  have run: "run_calls example_host two_requests example_client =
      (fst (run_calls example_host two_requests example_client),
       snd (run_calls example_host two_requests example_client))"
    by simp
  have reg: "registered (fst (run_calls example_host two_requests example_client)) = [(1, 0), (2, 1)]"
    by code_simp
  have a: "distinct (map fst (registered (fst (run_calls example_host two_requests example_client))))
     \<and> calls (snd (run_calls example_host two_requests example_client)) 1 = Some 0
     \<and> calls (snd (run_calls example_host two_requests example_client)) 2 = Some 1"
    using unique_in_flight_ids [OF run] unfolding reg by simp
  have none: "run_calls example_host [] (busy_client\<lparr>counter := 4\<rparr>) = ([], busy_client\<lparr>counter := 4\<rparr>)"
    by simp
  have p1: "packer_pack example_host (VTuple []) = Inr [0x90]"
    by (simp add: example_host_def)
  have p2: "packer_pack example_host (VDict []) = Inr [0x80]"
    by (simp add: example_host_def)
  have k: "0 \<le> counter (busy_client\<lparr>counter := 4\<rparr>)"
    "calls (busy_client\<lparr>counter := 4\<rparr>) (wrap_next (counter (busy_client\<lparr>counter := 4\<rparr>))) = Some 0"
    by (simp_all add: busy_client_fields wrap_next_def)
  have b: "call example_host 9 ''ns.add'' (VTuple []) (VDict []) (busy_client\<lparr>counter := 4\<rparr>) =
      (Inl (raised ''AssertionError''),
       busy_client\<lparr>counter := 4, counter := wrap_next (counter (busy_client\<lparr>counter := 4\<rparr>))\<rparr>)"
    using unique_in_flight_ids [OF none] p1 p2 k by blast
  show ?thesis
    using reg a k(2) b by simp
qed

subsection \<open>Headers on the wire\<close>

lemma length_enc_le: "length (enc_le k v) = k"
  by (induction k arbitrary: v) simp_all

lemma dec_enc_le: "dec_le (enc_le k v) = v mod 256 ^ k"
proof (induction k arbitrary: v)
  case 0
  show ?case by simp
next
  case (Suc k)
  have "unat (of_nat (v mod 256) :: byte) = v mod 256"
    by (simp add: unat_of_nat)
  then show ?case
    using Suc [of "v div 256"] by (simp add: mod_mult2_eq)
qed

lemma dec_enc_le4: "0 \<le> v \<Longrightarrow> v \<le> 0xffffffff \<Longrightarrow> int (dec_le (enc_le 4 (nat v))) = v"
  by (simp add: dec_enc_le)

lemma unpack_pack_d: "(of_nat (dec_le (pack_d t)) :: pyfloat) = t"
proof -
  have "unat t < 256 ^ 8"
    using unsigned_less [of t] by simp
  then show ?thesis
    by (simp add: pack_d_def dec_enc_le)
qed

lemma length_pack_d: "length (pack_d t) = 8"
  by (simp add: pack_d_def length_enc_le)

lemma RESP_unpack_response:
  assumes "length p = 4" and "0 \<le> req_id" and "req_id \<le> 0xffffffff"
  shows "RESP_unpack (p @ enc_le 4 (nat req_id) @ pack_d t @ pack_bool b) =
           Inr (int (dec_le (take 2 p)), int (dec_le (drop 2 p)), req_id, t, b)"
proof -
  let ?h = "p @ enc_le 4 (nat req_id) @ pack_d t @ pack_bool b"
  have len: "length ?h = 17"
    using assms(1) by (simp add: length_enc_le length_pack_d pack_bool_def)
  have f1: "take 2 ?h = take 2 p"
    using assms(1) by simp
  have f2: "take 2 (drop 2 ?h) = drop 2 p"
    using assms(1) by simp
  have f3: "take 4 (drop 4 ?h) = enc_le 4 (nat req_id)"
    using assms(1) by (simp add: length_enc_le)
  have f4: "take 8 (drop 8 ?h) = pack_d t"
    using assms(1) by (simp add: length_enc_le length_pack_d)
  have f5: "?h ! 16 = (if b then 1 else 0)"
    using assms(1) by (simp add: nth_append length_enc_le length_pack_d pack_bool_def)
  show ?thesis
    unfolding RESP_unpack_def f1 f2 f3 f4 f5 using len assms(2,3)
    by (simp add: dec_enc_le4 unpack_pack_d)
qed

lemma send_response_ok:
  assumes "transport s = Some w" and "0 \<le> req_id" and "req_id \<le> 0xffffffff"
    and "packer_pack h payload = Inr b"
  shows "send_response h t req_id peer is_error payload s =
           Inr (s\<lparr>transport :=
                  Some (w @ [[peer, prefix s @ enc_le 4 (nat req_id) @ pack_d t @ pack_bool is_error,
                              b]])\<rparr>)"
  using assms by (simp add: send_response_def RESP_SUFFIX_pack_def pack_uint4)

lemma process_call_result_failed:
  assumes "sfut < length (futures s)" and "futures s ! sfut = Failed exc"
    and "transport s = Some w" and "0 \<le> req_id" and "req_id \<le> 0xffffffff"
    and "packer_pack h (VTuple [VStr (exc_identifier (cls_of exc)), VTuple (args_of exc)]) = Inr b"
  shows "process_call_result h now now' sfut req_id peer s =
           (Inr (), s\<lparr>transport :=
                  Some (w @ [[peer, prefix s @ enc_le 4 (nat req_id) @ pack_d now' @ pack_bool True,
                              b]])\<rparr>)"
proof -
  have "fut_result sfut (futures s) = Inl exc"
    using assms(1,2) by (simp add: fut_result_def)
  then show ?thesis
    using send_response_ok [OF assms(3,4,5,6), of now' peer True]
    by (simp add: process_call_result_def Let_def)
qed

subsection \<open>The error table of the module\<close>

lemma table_step_other:
  "n \<notin> fst ` set xs \<Longrightarrow> k = ''builtins.'' @ n \<Longrightarrow>
   fold (\<lambda>(name, val) t.
           case val of ExceptionClass c \<Rightarrow> t((''builtins.'' @ name) \<mapsto> c) | OtherObject \<Rightarrow> t)
        xs t k = t k"
proof (induction xs arbitrary: t)
  case Nil
  show ?case by simp
next
  case (Cons x xs)
  obtain m v where x: "x = (m, v)" by (cases x)
  have ne: "m \<noteq> n" and rest: "n \<notin> fst ` set xs"
    using Cons.prems x by auto
  have key: "''builtins.'' @ m \<noteq> k"
    using ne Cons.prems(2) by simp
  show ?case
  proof (cases v)
    case (ExceptionClass c)
    have "fold (\<lambda>(name, val) t.
           case val of ExceptionClass c \<Rightarrow> t((''builtins.'' @ name) \<mapsto> c) | OtherObject \<Rightarrow> t)
        xs (t((''builtins.'' @ m) \<mapsto> c)) k = (t((''builtins.'' @ m) \<mapsto> c)) k"
      using Cons.IH [OF rest Cons.prems(2)] .
    also have "\<dots> = t k"
      using key by (simp del: append.simps)
    finally show ?thesis
      by (simp add: x ExceptionClass del: append.simps)
  next
    case OtherObject
    then show ?thesis
      using Cons.IH [OF rest Cons.prems(2)] by (simp add: x)
  qed
qed

lemma table_step_hit:
  "distinct (map fst xs) \<Longrightarrow> (n, ExceptionClass c) \<in> set xs \<Longrightarrow> k = ''builtins.'' @ n \<Longrightarrow>
   fold (\<lambda>(name, val) t.
           case val of ExceptionClass c \<Rightarrow> t((''builtins.'' @ name) \<mapsto> c) | OtherObject \<Rightarrow> t)
        xs t k = Some c"
proof (induction xs arbitrary: t)
  case Nil
  then show ?case by simp
next
  case (Cons x xs)
  obtain m v where x: "x = (m, v)" by (cases x)
  show ?case
  proof (cases "x = (n, ExceptionClass c)")
    case True
    then have notin: "n \<notin> fst ` set xs"
      using Cons.prems(1) by (auto simp: image_iff)
    have "fold (\<lambda>(name, val) t.
           case val of ExceptionClass c \<Rightarrow> t((''builtins.'' @ name) \<mapsto> c) | OtherObject \<Rightarrow> t)
        xs (t(k \<mapsto> c)) k = (t(k \<mapsto> c)) k"
      using table_step_other [OF notin Cons.prems(3)] .
    then show ?thesis
      using True Cons.prems(3) by (simp del: append.simps)
  next
    case False
    then have mem: "(n, ExceptionClass c) \<in> set xs" and dist: "distinct (map fst xs)"
      using Cons.prems by auto
    show ?thesis
      using Cons.IH [OF dist mem Cons.prems(3)] by (cases v) (simp_all add: x del: append.simps)
  qed
qed

lemma fill_error_table_standard:
  assumes "distinct (map fst (builtins_dir h))"
    and "(n, ExceptionClass (builtin_cls n)) \<in> set (builtins_dir h)"
  shows "fill_error_table h (exc_identifier (builtin_cls n)) = Some (builtin_cls n)"
proof -
  have key: "exc_identifier (builtin_cls n) = ''builtins.'' @ n"
    by (simp add: exc_identifier_def builtin_cls_def)
  have "fold (\<lambda>(name, val) t.
           case val of ExceptionClass c \<Rightarrow> t((''builtins.'' @ name) \<mapsto> c) | OtherObject \<Rightarrow> t)
        (builtins_dir h) Map.empty (exc_identifier (builtin_cls n)) = Some (builtin_cls n)"
    using table_step_hit [OF assms key] .
  then show ?thesis
    by (simp add: fill_error_table_def Let_def key rpc_module_def)
qed

lemma fill_error_table_own:
  "fill_error_table h (exc_identifier GenericError_cls) = Some GenericError_cls"
  "fill_error_table h (exc_identifier NotFoundError_cls) = Some NotFoundError_cls"
  by (simp_all add: fill_error_table_def exc_identifier_def GenericError_cls_def
      NotFoundError_cls_def rpc_module_def Let_def)

lemma call_class_NotFoundError:
  "call_class h NotFoundError_cls args = Inr (Exc NotFoundError_cls args)"
  by (simp add: call_class_def NotFoundError_cls_def GenericError_cls_def)

subsection \<open>Errors across the wire\<close>

text \<open>
  C1. Known-kind error round-trip. Let a handler invocation have failed with an exception
  of class \<open>cls\<close> and arguments \<open>args\<close>, and let the client's error table map the
  identifier \<^verbatim>\<open><module>.<name>\<close> of \<open>cls\<close> to a constructor \<open>found\<close>. Then
  \<open>process_call_result\<close> writes the peer frame, a header with the error flag set and
  the serialized pair of identifier and arguments. When the client's unpacker reads that
  pair back, \<open>translate_error\<close> is \<open>found\<close> applied to the arguments; and when that
  constructor is the one of \<open>cls\<close>, which keeps its arguments, the pending future
  registered under the request id is rejected with an exception of class \<open>cls\<close> with
  the same arguments, and its entry leaves the registry.
\<close>

theorem known_error_round_trip:
  assumes "sfut < length (futures s)" and "futures s ! sfut = Failed (Exc cls args)"
    and "transport s = Some w" and "length (prefix s) = 4"
    and "0 \<le> req_id" and "req_id \<le> 0xffffffff"
    and "packer_pack hs (VTuple [VStr (exc_identifier cls), VTuple args]) = Inr payload"
    and "unpacker_unpack hc (unpacker c @ payload) = (Inr answer, rest)"
    and "py_iter answer = Inr [VStr (exc_identifier cls), exc_args]"
    and "py_iter exc_args = Inr args"
    and "error_table c (exc_identifier cls) = Some found"
    and "call_class hc found args = Inr (Exc cls args)"
    and "calls c req_id = Some fut" and "fut < length (futures c)" and "futures c ! fut = Pending"
  shows "process_call_result hs now now' sfut req_id peer s =
           (Inr (), s\<lparr>transport :=
              Some (w @ [[peer, prefix s @ enc_le 4 (nat req_id) @ pack_d now' @ pack_bool True,
                          payload]])\<rparr>)
     \<and> RESP_unpack (prefix s @ enc_le 4 (nat req_id) @ pack_d now' @ pack_bool True) =
         Inr (int (dec_le (take 2 (prefix s))), int (dec_le (drop 2 (prefix s))), req_id, now', True)
     \<and> translate_error hc (error_table c) (VStr (exc_identifier cls)) exc_args =
         call_class hc found args
     \<and> client_msg_received hc
           [prefix s @ enc_le 4 (nat req_id) @ pack_d now' @ pack_bool True, payload] c =
         (Inr (), c\<lparr>unpacker := rest, calls := (calls c)(req_id := None),
                    futures := (futures c)[fut := Failed (Exc cls args)]\<rparr>)"
proof -
  let ?hdr = "prefix s @ enc_le 4 (nat req_id) @ pack_d now' @ pack_bool True"
  have sent: "process_call_result hs now now' sfut req_id peer s =
           (Inr (), s\<lparr>transport := Some (w @ [[peer, ?hdr, payload]])\<rparr>)"
    using process_call_result_failed [OF assms(1,2,3,5,6), of hs payload now now' peer] assms(7)
    by simp
  have hdr: "RESP_unpack ?hdr =
         Inr (int (dec_le (take 2 (prefix s))), int (dec_le (drop 2 (prefix s))), req_id, now', True)"
    using assms(4,5,6) by (rule RESP_unpack_response)
  have tr: "translate_error hc (error_table c) (VStr (exc_identifier cls)) exc_args =
         call_class hc found args"
    using assms(10,11) by (simp add: translate_error_def)
  have tr': "translate_error hc (error_table c) (VStr (exc_identifier cls)) exc_args =
         Inr (Exc cls args)"
    using tr assms(12) by simp
  have recv: "client_msg_received hc [?hdr, payload] c =
         (Inr (), c\<lparr>unpacker := rest, calls := (calls c)(req_id := None),
                    futures := (futures c)[fut := Failed (Exc cls args)]\<rparr>)"
    using hdr assms(8,9) tr' assms(13,14,15) by (rule client_msg_received_error)
  show ?thesis
    using sent hdr tr recv by blast
qed

theorem known_error_round_trip_witness:
  "futures failed_server ! 0 = Failed (Exc (builtin_cls ''ValueError'') [VStr ''boom''])
   \<and> error_table busy_client (exc_identifier (builtin_cls ''ValueError'')) =
       Some (builtin_cls ''ValueError'')
   \<and> calls busy_client 5 = Some 0 \<and> futures busy_client ! 0 = Pending
   \<and> fst (process_call_result example_host 7 8 0 5 [0x70] failed_server) = Inr ()
   \<and> transport (snd (process_call_result example_host 7 8 0 5 [0x70] failed_server)) =
       Some [[[0x70], prefix failed_server @ enc_le 4 (nat 5) @ pack_d 8 @ pack_bool True,
              [0x92, 0xb3, 0x62, 0x75, 0x69, 0x6c, 0x74, 0x69, 0x6e, 0x73, 0x2e, 0x56, 0x61, 0x6c,
               0x75, 0x65, 0x45, 0x72, 0x72, 0x6f, 0x72, 0x91, 0xa4, 0x62, 0x6f, 0x6f, 0x6d]]]
   \<and> futures (snd (client_msg_received example_host
        [prefix failed_server @ enc_le 4 (nat 5) @ pack_d 8 @ pack_bool True,
         [0x92, 0xb3, 0x62, 0x75, 0x69, 0x6c, 0x74, 0x69, 0x6e, 0x73, 0x2e, 0x56, 0x61, 0x6c,
          0x75, 0x65, 0x45, 0x72, 0x72, 0x6f, 0x72, 0x91, 0xa4, 0x62, 0x6f, 0x6f, 0x6d]]
        busy_client)) ! 0 = Failed (Exc (builtin_cls ''ValueError'') [VStr ''boom''])
   \<and> calls (snd (client_msg_received example_host
        [prefix failed_server @ enc_le 4 (nat 5) @ pack_d 8 @ pack_bool True,
         [0x92, 0xb3, 0x62, 0x75, 0x69, 0x6c, 0x74, 0x69, 0x6e, 0x73, 0x2e, 0x56, 0x61, 0x6c,
          0x75, 0x65, 0x45, 0x72, 0x72, 0x6f, 0x72, 0x91, 0xa4, 0x62, 0x6f, 0x6f, 0x6d]]
        busy_client)) 5 = None"
proof -
  have srv: "futures failed_server = [Failed (Exc (builtin_cls ''ValueError'') [VStr ''boom''])]"
    "transport failed_server = Some []" "prefix failed_server = [3, 0, 4, 0]"
    by (simp_all add: failed_server_def example_server_def)
  have a1: "0 < length (futures failed_server)"
    and a2: "futures failed_server ! 0 = Failed (Exc (builtin_cls ''ValueError'') [VStr ''boom''])"
    and a3: "transport failed_server = Some []"
    and a4: "length (prefix failed_server) = 4"
    by (simp_all add: srv)
  have a5: "(0::int) \<le> 5" and a6: "(5::int) \<le> 0xffffffff"
    by simp_all
  have ident: "exc_identifier (builtin_cls ''ValueError'') = ''builtins.ValueError''"
    by (simp add: exc_identifier_def builtin_cls_def)
  have enc: "packer_pack example_host (VTuple [VStr ''builtins.ValueError'', VTuple [VStr ''boom'']]) =
      Inr [0x92, 0xb3, 0x62, 0x75, 0x69, 0x6c, 0x74, 0x69, 0x6e, 0x73, 0x2e, 0x56, 0x61, 0x6c,
           0x75, 0x65, 0x45, 0x72, 0x72, 0x6f, 0x72, 0x91, 0xa4, 0x62, 0x6f, 0x6f, 0x6d]"
    by code_simp
  have a7: "packer_pack example_host
        (VTuple [VStr (exc_identifier (builtin_cls ''ValueError'')), VTuple [VStr ''boom'']]) =
      Inr [0x92, 0xb3, 0x62, 0x75, 0x69, 0x6c, 0x74, 0x69, 0x6e, 0x73, 0x2e, 0x56, 0x61, 0x6c,
           0x75, 0x65, 0x45, 0x72, 0x72, 0x6f, 0x72, 0x91, 0xa4, 0x62, 0x6f, 0x6f, 0x6d]"
    unfolding ident by (rule enc)
  have dec: "unpacker_unpack example_host
        ([] @ [0x92, 0xb3, 0x62, 0x75, 0x69, 0x6c, 0x74, 0x69, 0x6e, 0x73, 0x2e, 0x56, 0x61, 0x6c,
           0x75, 0x65, 0x45, 0x72, 0x72, 0x6f, 0x72, 0x91, 0xa4, 0x62, 0x6f, 0x6f, 0x6d]) =
      (Inr (VList [VStr ''builtins.ValueError'', VList [VStr ''boom'']]), [])"
    by code_simp
  have a8: "unpacker_unpack example_host
        (unpacker busy_client @
          [0x92, 0xb3, 0x62, 0x75, 0x69, 0x6c, 0x74, 0x69, 0x6e, 0x73, 0x2e, 0x56, 0x61, 0x6c,
           0x75, 0x65, 0x45, 0x72, 0x72, 0x6f, 0x72, 0x91, 0xa4, 0x62, 0x6f, 0x6f, 0x6d]) =
      (Inr (VList [VStr ''builtins.ValueError'', VList [VStr ''boom'']]), [])"
    unfolding busy_client_fields by (rule dec)
  have a9: "py_iter (VList [VStr ''builtins.ValueError'', VList [VStr ''boom'']]) =
      Inr [VStr (exc_identifier (builtin_cls ''ValueError'')), VList [VStr ''boom'']]"
    by (simp add: ident)
  have a10: "py_iter (VList [VStr ''boom'']) = Inr [VStr ''boom'']"
    by simp
  have a11: "error_table busy_client (exc_identifier (builtin_cls ''ValueError'')) =
      Some (builtin_cls ''ValueError'')"
    unfolding busy_client_fields
    by (rule fill_error_table_standard) (simp_all add: example_host_def)
  have a12: "call_class example_host (builtin_cls ''ValueError'') [VStr ''boom''] =
      Inr (Exc (builtin_cls ''ValueError'') [VStr ''boom''])"
    by (simp add: call_class_def example_host_def builtin_cls_def GenericError_cls_def
        NotFoundError_cls_def Error_cls_def rpc_module_def)
  have a13: "calls busy_client 5 = Some 0" and a14: "0 < length (futures busy_client)"
    and a15: "futures busy_client ! 0 = Pending"
    by (simp_all add: busy_client_fields)
  show ?thesis
    using known_error_round_trip [OF a1 a2 a3 a4 a5 a6 a7 a8 a9 a10 a11 a12 a13 a14 a15,
        of 7 8 "[0x70]"] a2 a11 a13 a15
    by (simp add: busy_client_fields srv)
qed

subsection \<open>Inbound messages of the server\<close>

text \<open>
  C9 does not hold of the code: \<open>server_msg_received\<close> has no \<^verbatim>\<open>try\<close> around the unpacking
  of the frames, of the header, of the name or of the argument blobs, so each of these
  failures is raised out of the callback, and nothing is logged. The messages below have
  two frames, a three-byte header, and an argument blob that is not a serialized value.
\<close>

theorem server_decode_errors_are_raised:
  "server_msg_received example_host [[0x70], [0, 0, 0]] example_server =
     (Inl (raised ''ValueError''), example_server)
   \<and> server_msg_received example_host [[0x70], [0, 0, 0], [0x66], [0x90], [0x80]] example_server =
     (Inl struct_error, example_server)
   \<and> server_msg_received example_host
       [[0x70], [1, 0, 2, 0, 5, 0, 0, 0, 0, 0, 0, 0, 0, 0, 0, 0], [0x66, 0x61, 0x69, 0x6c],
        [0xc1], [0x80]] example_server =
     (Inl unpack_error, example_server\<lparr>unpacker := [0xc1]\<rparr>)"
  by code_simp

subsection \<open>The invariant of the client\<close>

lemma PREFIX_pack_length: "PREFIX_pack pid rnd = Inr p \<Longrightarrow> length p = 4"
  by (auto simp: PREFIX_pack_def pack_uint_def length_enc_le split: if_splits)

lemma client_init_inv:
  assumes "client_init h pid rnd fs = Inr c"
  shows "client_inv c"
proof (cases "PREFIX_pack (pid mod 0x10000) rnd")
  case (Inl e)
  then show ?thesis using assms by (simp add: client_init_def)
next
  case (Inr p)
  then have c: "c = \<lparr>transport = None, done_waiters = [], unpacker = [], prefix = p, futures = fs,
               logged = [], calls = Map.empty, counter = 0, error_table = fill_error_table h\<rparr>"
    using assms by (simp add: client_init_def)
  have "length p = 4"
    using Inr by (rule PREFIX_pack_length)
  then show ?thesis
    by (simp add: c client_inv_def registry_pending_def waiters_pending_def)
qed

lemma wrap_next_range: "0 \<le> v \<Longrightarrow> 0 \<le> wrap_next v \<and> wrap_next v \<le> 0xffffffff"
  by (simp add: wrap_next_def)

lemma client_inv_transport: "client_inv (c\<lparr>transport := tr\<rparr>) = client_inv c"
  by (simp add: client_inv_def registry_pending_def waiters_pending_def)

lemma register_inv:
  assumes inv: "client_inv c" and free: "calls c i = None"
    and i: "0 \<le> i" "i \<le> 0xffffffff"
  shows "client_inv (c\<lparr>counter := i, futures := futures c @ [Pending],
                        calls := (calls c)(i \<mapsto> length (futures c)), transport := tr\<rparr>)"
proof -
  let ?c' = "c\<lparr>counter := i, futures := futures c @ [Pending],
                calls := (calls c)(i \<mapsto> length (futures c)), transport := tr\<rparr>"
  have reg: "\<And>r f. calls c r = Some f \<Longrightarrow>
      f < length (futures c) \<and> futures c ! f = Pending \<and> f \<notin> set (done_waiters c)"
    and wait: "distinct (done_waiters c)"
      "\<And>w. w \<in> set (done_waiters c) \<Longrightarrow> w < length (futures c) \<and> futures c ! w = Pending"
    and inj: "\<And>r r' f. calls c r = Some f \<Longrightarrow> calls c r' = Some f \<Longrightarrow> r = r'"
    and pre: "length (prefix c) = 4"
    using inv by (auto simp: client_inv_def registry_pending_def waiters_pending_def)
  have fresh: "length (futures c) \<notin> set (done_waiters c)"
    using wait(2) by blast
  have sel: "calls ?c' = (calls c)(i \<mapsto> length (futures c))"
    "futures ?c' = futures c @ [Pending]" "done_waiters ?c' = done_waiters c"
    "counter ?c' = i" "prefix ?c' = prefix c"
    by simp_all
  have r1: "registry_pending ?c'"
    unfolding registry_pending_def sel
  proof (intro allI impI)
    fix r f
    assume h: "((calls c)(i \<mapsto> length (futures c))) r = Some f"
    show "f < length (futures c @ [Pending]) \<and> (futures c @ [Pending]) ! f = Pending
        \<and> f \<notin> set (done_waiters c)"
    proof (cases "r = i")
      case True
      then have "f = length (futures c)" using h by simp
      then show ?thesis using fresh by simp
    next
      case False
      then have "calls c r = Some f" using h by simp
      then have "f < length (futures c) \<and> futures c ! f = Pending \<and> f \<notin> set (done_waiters c)"
        by (rule reg)
      then show ?thesis by (simp add: nth_append)
    qed
  qed
  have r2: "waiters_pending ?c'"
    unfolding waiters_pending_def sel
  proof (intro conjI ballI)
    show "distinct (done_waiters c)" by (rule wait(1))
  next
    fix w assume "w \<in> set (done_waiters c)"
    then have "w < length (futures c) \<and> futures c ! w = Pending" by (rule wait(2))
    then show "w < length (futures c @ [Pending])" and "(futures c @ [Pending]) ! w = Pending"
      by (simp_all add: nth_append)
  qed
  have r3: "\<forall>r r' f. calls ?c' r = Some f \<and> calls ?c' r' = Some f \<longrightarrow> r = r'"
    unfolding sel
  proof (intro allI impI)
    fix r r' f
    assume h: "((calls c)(i \<mapsto> length (futures c))) r = Some f
       \<and> ((calls c)(i \<mapsto> length (futures c))) r' = Some f"
    have old: "r0 = i" if "((calls c)(i \<mapsto> length (futures c))) r0 = Some (length (futures c))" for r0
    proof (rule ccontr)
      assume "r0 \<noteq> i"
      then have "calls c r0 = Some (length (futures c))" using that by simp
      then have "length (futures c) < length (futures c)" using reg by blast
      then show False by simp
    qed
    show "r = r'"
    proof (cases "f = length (futures c)")
      case True
      then show ?thesis using h old by blast
    next
      case False
      then have "r \<noteq> i" and "r' \<noteq> i" using h by auto
      then have "calls c r = Some f" and "calls c r' = Some f" using h by simp_all
      then show ?thesis by (rule inj)
    qed
  qed
  show ?thesis
    unfolding client_inv_def using r1 r2 r3 i pre unfolding sel by blast
qed

lemma call_inv:
  assumes inv: "client_inv c"
  shows "client_inv (snd (call h now name args kwargs c))"
proof -
  have cnt: "0 \<le> counter c" using inv by (simp add: client_inv_def)
  note nid = new_id_eq [OF cnt, of now]
  have rng: "0 \<le> wrap_next (counter c)" "wrap_next (counter c) \<le> 0xffffffff"
    using wrap_next_range [OF cnt] by simp_all
  have bump: "client_inv (c\<lparr>counter := wrap_next (counter c)\<rparr>)"
    using inv rng by (simp add: client_inv_def registry_pending_def waiters_pending_def)
  show ?thesis
  proof (cases "packer_pack h args")
    case (Inl e)
    then show ?thesis using inv by (simp add: call_def)
  next
    case bargs: (Inr bargs)
    show ?thesis
    proof (cases "packer_pack h kwargs")
      case (Inl e)
      then show ?thesis using inv bargs by (simp add: call_def)
    next
      case bkwargs: (Inr bkwargs)
      show ?thesis
      proof (cases "calls c (wrap_next (counter c))")
        case (Some f0)
        then show ?thesis
          using bargs bkwargs nid bump by (simp add: call_def)
      next
        case None
        have reg: "client_inv (c\<lparr>counter := wrap_next (counter c), futures := futures c @ [Pending],
                        calls := (calls c)(wrap_next (counter c) \<mapsto> length (futures c)),
                        transport := tr\<rparr>)" for tr
          using register_inv [OF inv None rng] .
        have reg0: "client_inv (c\<lparr>counter := wrap_next (counter c), futures := futures c @ [Pending],
                        calls := (calls c)(wrap_next (counter c) \<mapsto> length (futures c))\<rparr>)"
          using reg [of None] client_inv_transport
            [where c = "c\<lparr>counter := wrap_next (counter c), futures := futures c @ [Pending],
                        calls := (calls c)(wrap_next (counter c) \<mapsto> length (futures c))\<rparr>"
               and tr = None]
          by simp
        show ?thesis
        proof (cases "transport c")
          case None
          then show ?thesis
            using bargs bkwargs nid \<open>calls c (wrap_next (counter c)) = None\<close>
              reg0
            by (simp add: call_def new_future_def transport_write_def)
        next
          case (Some w)
          then show ?thesis
            using bargs bkwargs nid \<open>calls c (wrap_next (counter c)) = None\<close>
              reg [of "Some (w @ [[prefix c @ enc_le 4 (nat (wrap_next (counter c))) @ pack_d now,
                      encode_utf8 name, bargs, bkwargs]])"]
            by (simp add: call_def new_future_def transport_write_def)
        qed
      qed
    qed
  qed
qed

lemma wait_closed_inv:
  assumes inv: "client_inv c"
  shows "client_inv (snd (wait_closed c))"
proof (cases "transport c")
  case None
  then show ?thesis using inv by (simp add: wait_closed_def)
next
  case (Some w)
  have reg: "\<And>r f. calls c r = Some f \<Longrightarrow>
      f < length (futures c) \<and> futures c ! f = Pending \<and> f \<notin> set (done_waiters c)"
    and wait: "distinct (done_waiters c)"
      "\<And>w. w \<in> set (done_waiters c) \<Longrightarrow> w < length (futures c) \<and> futures c ! w = Pending"
    using inv by (auto simp: client_inv_def registry_pending_def waiters_pending_def)
  have fresh: "length (futures c) \<notin> set (done_waiters c)"
    using wait(2) by blast
  have st: "snd (wait_closed c) =
      c\<lparr>futures := futures c @ [Pending], done_waiters := done_waiters c @ [length (futures c)]\<rparr>"
    using Some by (simp add: wait_closed_def new_future_def)
  have r1: "registry_pending (snd (wait_closed c))"
    unfolding st registry_pending_def using reg by (fastforce simp: nth_append)
  have r2: "waiters_pending (snd (wait_closed c))"
    unfolding st waiters_pending_def using wait fresh by (auto simp: nth_append less_Suc_eq)
  show ?thesis
    using inv r1 r2 unfolding client_inv_def by (simp add: st)
qed

lemma client_inv_log:
  "client_inv (c\<lparr>logged := l\<rparr>) = client_inv c"
  "client_inv (c\<lparr>unpacker := u\<rparr>) = client_inv c"
  by (simp_all add: client_inv_def registry_pending_def waiters_pending_def)

lemma pop_inv:
  assumes inv: "client_inv c" and reg: "calls c req_id = Some fut"
  shows "client_inv (c\<lparr>calls := (calls c)(req_id := None)\<rparr>)"
    and "client_inv (c\<lparr>calls := (calls c)(req_id := None), futures := (futures c)[fut := st]\<rparr>)"
proof -
  have regp: "\<And>r f. calls c r = Some f \<Longrightarrow>
      f < length (futures c) \<and> futures c ! f = Pending \<and> f \<notin> set (done_waiters c)"
    and wait: "distinct (done_waiters c)"
      "\<And>w. w \<in> set (done_waiters c) \<Longrightarrow> w < length (futures c) \<and> futures c ! w = Pending"
    and inj: "\<And>r r' f. calls c r = Some f \<Longrightarrow> calls c r' = Some f \<Longrightarrow> r = r'"
    and rest: "0 \<le> counter c" "counter c \<le> 0xffffffff" "length (prefix c) = 4"
    using inv by (auto simp: client_inv_def registry_pending_def waiters_pending_def)
  have notw: "fut \<notin> set (done_waiters c)"
    using regp [OF reg] by simp
  have other: "f \<noteq> fut" if "r \<noteq> req_id" "calls c r = Some f" for r f
    using that inj [OF that(2), of req_id] reg by auto
  show "client_inv (c\<lparr>calls := (calls c)(req_id := None)\<rparr>)"
    unfolding client_inv_def registry_pending_def waiters_pending_def
    using regp wait inj rest by (auto split: if_splits)
  have r1: "registry_pending (c\<lparr>calls := (calls c)(req_id := None),
      futures := (futures c)[fut := st]\<rparr>)"
    unfolding registry_pending_def
  proof (intro allI impI)
    fix r f
    assume "calls (c\<lparr>calls := (calls c)(req_id := None), futures := (futures c)[fut := st]\<rparr>) r
        = Some f"
    then have ne: "r \<noteq> req_id" and cf: "calls c r = Some f"
      by (auto split: if_splits)
    have "f \<noteq> fut" using other [OF ne cf] .
    then show "f < length (futures (c\<lparr>calls := (calls c)(req_id := None),
            futures := (futures c)[fut := st]\<rparr>))
        \<and> futures (c\<lparr>calls := (calls c)(req_id := None), futures := (futures c)[fut := st]\<rparr>) ! f
            = Pending
        \<and> f \<notin> set (done_waiters (c\<lparr>calls := (calls c)(req_id := None),
            futures := (futures c)[fut := st]\<rparr>))"
      using regp [OF cf] by simp
  qed
  have r2: "waiters_pending (c\<lparr>calls := (calls c)(req_id := None),
      futures := (futures c)[fut := st]\<rparr>)"
    unfolding waiters_pending_def
  proof (intro conjI ballI)
    show "distinct (done_waiters (c\<lparr>calls := (calls c)(req_id := None),
        futures := (futures c)[fut := st]\<rparr>))"
      using wait(1) by simp
  next
    fix w
    assume "w \<in> set (done_waiters (c\<lparr>calls := (calls c)(req_id := None),
        futures := (futures c)[fut := st]\<rparr>))"
    then have w: "w \<in> set (done_waiters c)" by simp
    then have ne: "w \<noteq> fut" using notw by blast
    show "w < length (futures (c\<lparr>calls := (calls c)(req_id := None),
        futures := (futures c)[fut := st]\<rparr>))"
      using wait(2) [OF w] by simp
    show "futures (c\<lparr>calls := (calls c)(req_id := None),
        futures := (futures c)[fut := st]\<rparr>) ! w = Pending"
      using wait(2) [OF w] ne by simp
  qed
  have r3: "\<forall>r r' f. calls (c\<lparr>calls := (calls c)(req_id := None),
        futures := (futures c)[fut := st]\<rparr>) r = Some f
      \<and> calls (c\<lparr>calls := (calls c)(req_id := None),
        futures := (futures c)[fut := st]\<rparr>) r' = Some f \<longrightarrow> r = r'"
    using inj by (auto split: if_splits)
  show "client_inv (c\<lparr>calls := (calls c)(req_id := None), futures := (futures c)[fut := st]\<rparr>)"
    unfolding client_inv_def using r1 r2 r3 rest by simp
qed

lemma complete_call_state:
  "snd (complete_call h fut is_error answer c) = c
   \<or> (\<exists>st. snd (complete_call h fut is_error answer c) = c\<lparr>futures := (futures c)[fut := st]\<rparr>)"
  by (auto simp: complete_call_def set_result_def set_exception_def settle_def
      split: sum.splits list.splits if_splits)

lemma client_msg_received_inv:
  assumes inv: "client_inv c"
  shows "client_inv (snd (client_msg_received h data c))"
proof -
  have logonly: "client_inv (c\<lparr>logged := l\<rparr>)" "client_inv (c\<lparr>unpacker := u, logged := l\<rparr>)" for l u
    using inv by (simp_all add: client_inv_log)
  show ?thesis
  proof (cases "\<exists>header banswer. data = [header, banswer]")
    case False
    then have "client_msg_received h data c = (Inr (), c\<lparr>logged := logged c @ [CannotUnpack data]\<rparr>)"
      by (auto simp: client_msg_received_def split: list.splits)
    then show ?thesis using logonly by simp
  next
    case True
    then obtain header banswer where d: "data = [header, banswer]" by blast
    show ?thesis
    proof (cases "RESP_unpack header")
      case (Inl e)
      then show ?thesis using logonly by (simp add: d client_msg_received_def)
    next
      case (Inr t)
      obtain pid rnd req_id ts is_error where t: "t = (pid, rnd, req_id, ts, is_error)"
        by (cases t) auto
      obtain r rest where u: "unpacker_unpack h (unpacker c @ banswer) = (r, rest)"
        by (cases "unpacker_unpack h (unpacker c @ banswer)")
      show ?thesis
      proof (cases r)
        case (Inl e)
        then show ?thesis using Inr t u logonly by (simp add: d client_msg_received_def)
      next
        case ans: (Inr answer)
        show ?thesis
        proof (cases "calls c req_id")
          case None
          then show ?thesis
            using Inr t u ans logonly by (simp add: d client_msg_received_def)
        next
          case (Some fut)
          let ?c2 = "c\<lparr>unpacker := rest, calls := (calls c)(req_id := None)\<rparr>"
          have inv1: "client_inv (c\<lparr>unpacker := rest\<rparr>)"
            using inv by (simp add: client_inv_log)
          have reg1: "calls (c\<lparr>unpacker := rest\<rparr>) req_id = Some fut"
            using Some by simp
          have a: "client_inv ?c2"
            using pop_inv(1) [OF inv1 reg1] by simp
          have b: "client_inv (?c2\<lparr>futures := (futures ?c2)[fut := st]\<rparr>)" for st
            using pop_inv(2) [OF inv1 reg1, of st] by simp
          have res: "snd (client_msg_received h data c) = snd (complete_call h fut is_error answer ?c2)"
            using Inr t u ans Some by (simp add: d client_msg_received_def)
          show ?thesis
            unfolding res using complete_call_state [of h fut is_error answer ?c2] a b by auto
        qed
      qed
    qed
  qed
qed

text \<open>
  So every state that \<open>client_init\<close>, \<open>call\<close>, \<open>client_msg_received\<close> and \<open>wait_closed\<close>
  can produce satisfies the hypotheses on pending futures that the theorems above make.
\<close>

lemma client_inv_pending:
  assumes "client_inv c"
  shows "registry_pending c" and "waiters_pending c"
    and "calls c req_id = Some fut \<Longrightarrow> fut < length (futures c) \<and> futures c ! fut = Pending"
  using assms by (auto simp: client_inv_def registry_pending_def)

subsection \<open>Further facts about the code\<close>

text \<open>The sizes of the two header layouts: 17 bytes for a response, 16 for a request.\<close>

lemma RESP_size: "(\<exists>t. RESP_unpack h = Inr t) \<longleftrightarrow> length h = 17"
  by (simp add: RESP_unpack_def)

lemma REQ_size: "(\<exists>t. REQ_unpack h = Inr t) \<longleftrightarrow> length h = 16"
  by (simp add: REQ_unpack_def)

text \<open>
  A name whose only dot is the first character has an empty namespace path, which the
  guard \<^verbatim>\<open>if namespaces:\<close> skips: it resolves like the name without the dot.
\<close>

lemma dispatch_leading_dot:
  "dispatch (handler example_server) ''.fail'' = Inr (Function ''fail'' True False)"
  by code_simp

text \<open>
  A shutdown waiter that was cancelled from outside makes \<^verbatim>\<open>set_result\<close> raise: the loop of
  \<open>connection_lost\<close> stops there and the waiters after it stay pending.
\<close>

lemma connection_lost_cancelled_waiter:
  "connection_lost None (busy_client\<lparr>futures := [Pending, Cancelled, Pending]\<rparr>) =
     (Inl InvalidStateError,
      busy_client\<lparr>futures := [Pending, Cancelled, Pending], transport := None\<rparr>)"
  by (simp add: connection_lost_def busy_client_fields set_result_def settle_def)

text \<open>
  The same for a response to a call whose future was cancelled from outside: the entry is
  popped and \<^verbatim>\<open>set_result\<close> raises out of \<open>client_msg_received\<close>.
\<close>

lemma response_to_cancelled_call:
  "fst (client_msg_received example_host
          [[3, 0, 4, 0, 5, 0, 0, 0, 0, 0, 0, 0, 0, 0, 0, 0, 0], [5]]
          (busy_client\<lparr>futures := [Cancelled, Pending, Pending]\<rparr>)) = Inl InvalidStateError"
  by (simp add: client_msg_received_def RESP_unpack_def busy_client_fields example_host_def
      complete_call_def set_result_def settle_def)

end
